theory Spec2Isabelle
  imports Complex_Main "HOL-Library.Product_Lexorder" "HOL-Library.AList" "HOL-Library.Sublist"
begin

section \<open>ContextBench: the context-retrieval evaluation engine\<close>

text \<open>
  A shallow embedding of the metric code of \<^verbatim>\<open>contextbench/metrics/compute.py\<close>,
  \<^verbatim>\<open>contextbench/evaluate.py\<close>, \<^verbatim>\<open>contextbench/parsers/trajectory.py\<close> and
  \<^verbatim>\<open>contextbench/extractors/treesitter.py\<close>.

  Conventions of the embedding.
  \<^item> Python's \<^verbatim>\<open>int\<close> is \<^typ>\<open>int\<close>; \<^verbatim>\<open>len\<close> of a set is \<^const>\<open>card\<close>.
  \<^item> Python's true division \<^verbatim>\<open>a / b\<close> is the exact quotient in \<^typ>\<open>real\<close>; the
    rounding of the quotient to a binary float is not modelled, so \<^verbatim>\<open>1.0\<close> is \<open>1\<close>
    and \<^verbatim>\<open>0.0\<close> is \<open>0\<close>.
  \<^item> A \<^verbatim>\<open>dict\<close> is an association list in insertion order; a well-formed dict has
    distinct keys. \<^verbatim>\<open>d[k] = v\<close> is \<^const>\<open>AList.update\<close>, which overwrites in place
    or appends at the end, as Python does.
  \<^item> A \<^verbatim>\<open>str\<close> is a \<^typ>\<open>string\<close>; only ASCII text is modelled.
\<close>

subsection \<open>Coverage and precision\<close>

text \<open>\<^verbatim>\<open>coverage_precision\<close> (compute.py, lines 7-11).\<close>

definition coverage_precision :: "real \<Rightarrow> real \<Rightarrow> real \<Rightarrow> real \<times> real" where
  "coverage_precision pred_size gold_size inter_size =
     (let cov = (if gold_size > 0 then inter_size / gold_size else 1);
          prec = (if pred_size > 0 then inter_size / pred_size else 1)
      in (cov, prec))"

subsection \<open>Line intervals\<close>

type_synonym LineInterval = "int \<times> int"

text \<open>
  One iteration of the loop of \<^verbatim>\<open>_merge_line_intervals\<close>: \<open>merged\<close> is never empty
  there, \<open>last merged\<close> is \<^verbatim>\<open>merged[-1]\<close>.
\<close>

definition merge_step :: "LineInterval list \<Rightarrow> LineInterval \<Rightarrow> LineInterval list" where
  "merge_step merged current =
     (let lst = last merged
      in if fst current \<le> snd lst + 1
         then butlast merged @ [(fst lst, max (snd lst) (snd current))]
         else merged @ [current])"

text \<open>
  \<^verbatim>\<open>_merge_line_intervals\<close> (compute.py, lines 27-39). Python's \<^verbatim>\<open>sorted\<close> on tuples
  of integers is the lexicographic order, which is the order of pairs here.
\<close>

definition merge_line_intervals :: "LineInterval list \<Rightarrow> LineInterval list" where
  "merge_line_intervals intervals =
     (if intervals = [] then []
      else let sorted_intervals = sort intervals
           in foldl merge_step [hd sorted_intervals] (tl sorted_intervals))"

text \<open>\<^verbatim>\<open>_line_interval_length\<close> (compute.py, lines 41-43).\<close>

definition line_interval_length :: "LineInterval list \<Rightarrow> int" where
  "line_interval_length intervals =
     (\<Sum>(start, end) \<leftarrow> merge_line_intervals intervals. end - start + 1)"

text \<open>
  The two-pointer loop of \<^verbatim>\<open>_line_interval_intersect\<close> (compute.py, lines 50-60); the
  lists are the parts of \<open>a_m\<close> and \<open>b_m\<close> from index \<open>i\<close> and \<open>j\<close> on.
\<close>

fun intersect_loop :: "LineInterval list \<Rightarrow> LineInterval list \<Rightarrow> LineInterval list" where
  "intersect_loop (a # as) (b # bs) =
     (let overlap = (max (fst a) (fst b), min (snd a) (snd b))
      in (if fst overlap \<le> snd overlap then [overlap] else []) @
         (if snd a < snd b then intersect_loop as (b # bs)
          else if snd b < snd a then intersect_loop (a # as) bs
          else intersect_loop as bs))"
| "intersect_loop _ _ = []"

definition line_interval_intersect :: "LineInterval list \<Rightarrow> LineInterval list \<Rightarrow> LineInterval list" where
  "line_interval_intersect a b =
     intersect_loop (merge_line_intervals a) (merge_line_intervals b)"

definition line_interval_intersect_size :: "LineInterval list \<Rightarrow> LineInterval list \<Rightarrow> int" where
  "line_interval_intersect_size a b = line_interval_length (line_interval_intersect a b)"

type_synonym 'v dict = "(string \<times> 'v) list"

text \<open>\<^verbatim>\<open>d.get(k, default)\<close>.\<close>

definition dict_get :: "'v dict \<Rightarrow> string \<Rightarrow> 'v \<Rightarrow> 'v" where
  "dict_get d k dflt = (case map_of d k of Some v \<Rightarrow> v | None \<Rightarrow> dflt)"

text \<open>\<^verbatim>\<open>line_total_lines\<close> and \<^verbatim>\<open>line_intersection_lines\<close> (compute.py, lines 81-90).\<close>

definition line_total_lines :: "LineInterval list dict \<Rightarrow> int" where
  "line_total_lines lines_by_file = (\<Sum>intervals \<leftarrow> map snd lines_by_file. line_interval_length intervals)"

definition line_intersection_lines :: "LineInterval list dict \<Rightarrow> LineInterval list dict \<Rightarrow> int" where
  "line_intersection_lines a b =
     (\<Sum>f \<in> set (map fst a) \<union> set (map fst b).
        line_interval_intersect_size (dict_get a f []) (dict_get b f []))"

text \<open>The lines an interval list denotes: line intervals are inclusive at both ends.\<close>

definition lines_of :: "LineInterval list \<Rightarrow> int set" where
  "lines_of intervals = (\<Union>(s, e) \<in> set intervals. {s..e})"

text \<open>
  The loop of \<^verbatim>\<open>_merge_line_intervals\<close> as a recursion on the intervals still to be
  read: \<open>l\<close> is \<^verbatim>\<open>merged[-1]\<close>, the intervals before it are final. It is used in the
  proofs only (\<open>foldl_merge_step\<close> relates it to the loop).
\<close>

fun coalesce :: "LineInterval \<Rightarrow> LineInterval list \<Rightarrow> LineInterval list" where
  "coalesce l [] = [l]"
| "coalesce l (c # cs) =
     (if fst c \<le> snd l + 1 then coalesce (fst l, max (snd l) (snd c)) cs
      else l # coalesce c cs)"

subsection \<open>Strings\<close>

text \<open>
  The ASCII characters \<^verbatim>\<open>str.isspace\<close> accepts, which \<^verbatim>\<open>str.strip()\<close> removes:
  tab, line feed, vertical tab, form feed, carriage return, the separators \<open>0x1c\<close> to
  \<open>0x1f\<close>, and the space.
\<close>

definition py_isspace :: "char \<Rightarrow> bool" where
  "py_isspace c = (c \<in> {CHR 0x09, CHR 0x0A, CHR 0x0B, CHR 0x0C, CHR 0x0D,
                         CHR 0x1C, CHR 0x1D, CHR 0x1E, CHR 0x1F, CHR 0x20})"

text \<open>\<^verbatim>\<open>s.strip(chars)\<close> for a predicate on characters, and \<^verbatim>\<open>s.strip()\<close>.\<close>

definition strip_where :: "(char \<Rightarrow> bool) \<Rightarrow> string \<Rightarrow> string" where
  "strip_where P s = rev (dropWhile P (rev (dropWhile P s)))"

definition py_strip :: "string \<Rightarrow> string" where
  "py_strip s = strip_where py_isspace s"

text \<open>\<^verbatim>\<open>s.split(sep)\<close> for a one-character separator: empty pieces are kept.\<close>

fun py_split :: "char \<Rightarrow> string \<Rightarrow> string list" where
  "py_split sep [] = [[]]"
| "py_split sep (x # xs) =
     (if x = sep then [] # py_split sep xs
      else (case py_split sep xs of
              w # ws \<Rightarrow> (x # w) # ws
            | [] \<Rightarrow> [[x]]))"

text \<open>\<^verbatim>\<open>sep.join(parts)\<close>.\<close>

fun py_join :: "string \<Rightarrow> string list \<Rightarrow> string" where
  "py_join sep [] = []"
| "py_join sep [p] = p"
| "py_join sep (p # q # ps) = p @ sep @ py_join sep (q # ps)"

subsection \<open>Path resolver\<close>

text \<open>
  The file system is a parameter. For a checkout directory \<open>repo_dir\<close> and a relative
  path \<open>p\<close>, with \<^verbatim>\<open>repo_real = os.path.realpath(repo_dir)\<close> and
  \<^verbatim>\<open>target_real = os.path.realpath(os.path.join(repo_real, p))\<close>:
  \<^item> \<open>stays_inside fs repo_dir p\<close> says that
    \<^verbatim>\<open>os.path.commonpath([repo_real, target_real]) == repo_real\<close> (false when
    \<^verbatim>\<open>commonpath\<close> raises);
  \<^item> \<open>is_file fs repo_dir p\<close> says \<^verbatim>\<open>os.path.isfile(target_real)\<close>.
\<close>

record filesystem =
  stays_inside :: "string \<Rightarrow> string \<Rightarrow> bool"
  is_file :: "string \<Rightarrow> string \<Rightarrow> bool"

text \<open>
  \<^verbatim>\<open>_is_repo_file\<close> (evaluate.py, lines 26-40). \<^verbatim>\<open>os.path.isabs\<close> is the POSIX one:
  the path starts with a slash.
\<close>

definition is_repo_file :: "filesystem \<Rightarrow> string \<Rightarrow> string \<Rightarrow> bool" where
  "is_repo_file fs repo_dir rel_path =
     (if repo_dir = [] \<or> rel_path = [] then False
      else let p = py_strip rel_path
           in if p = [] \<or> take 1 p = ''/'' then False
              else if \<not> stays_inside fs repo_dir p then False
              else is_file fs repo_dir p)"

text \<open>The loop \<^verbatim>\<open>while p.startswith("./"): p = p[2:]\<close>.\<close>

fun strip_dot_slash :: "string \<Rightarrow> string" where
  "strip_dot_slash (a # b # rest) =
     (if a = CHR ''.'' \<and> b = CHR ''/'' then strip_dot_slash rest else a # b # rest)"
| "strip_dot_slash p = p"

text \<open>
  The normalisation of \<^verbatim>\<open>_resolve_repo_relpath\<close> (evaluate.py, lines 55-63): strip
  white space, strip quotes, turn backslashes into slashes, drop leading \<^verbatim>\<open>./\<close> and
  leading slashes. \<open>CHR 0x27\<close> and \<open>CHR 0x22\<close> are the single and the double quote,
  \<open>CHR 0x5C\<close> is the backslash.
\<close>

definition normalize_path :: "string \<Rightarrow> string" where
  "normalize_path path =
     (let p = map (\<lambda>c. if c = CHR 0x5C then CHR ''/'' else c)
                (strip_where (\<lambda>c. c \<in> {CHR 0x27, CHR 0x22}) (py_strip path));
          p = strip_dot_slash p;
          p = (if take 1 p = ''/'' then dropWhile (\<lambda>c. c = CHR ''/'') p else p)
      in p)"

text \<open>\<^verbatim>\<open>parts = [x for x in p.split("/") if x]\<close>.\<close>

definition path_parts :: "string \<Rightarrow> string list" where
  "path_parts path = filter (\<lambda>x. x \<noteq> []) (py_split CHR ''/'' (normalize_path path))"

text \<open>
  The loop over \<^verbatim>\<open>i in range(0, len(parts))\<close> (evaluate.py, lines 70-74): the
  argument is \<^verbatim>\<open>parts[i:]\<close>.
\<close>

fun try_suffixes :: "filesystem \<Rightarrow> string \<Rightarrow> string list \<Rightarrow> string" where
  "try_suffixes fs repo_dir [] = []"
| "try_suffixes fs repo_dir (x # xs) =
     (let cand = py_join ''/'' (x # xs)
      in if is_repo_file fs repo_dir cand then cand else try_suffixes fs repo_dir xs)"

text \<open>
  \<^verbatim>\<open>_resolve_repo_relpath\<close> (evaluate.py, lines 43-74). The early returns for an
  empty \<open>p\<close> return what the one for empty \<open>parts\<close> returns; they are kept as the
  source has them.
\<close>

definition resolve_repo_relpath :: "filesystem \<Rightarrow> string \<Rightarrow> string \<Rightarrow> string" where
  "resolve_repo_relpath fs repo_dir path =
     (if repo_dir = [] \<or> path = [] then []
      else if map (\<lambda>c. if c = CHR 0x5C then CHR ''/'' else c)
                (strip_where (\<lambda>c. c \<in> {CHR 0x27, CHR 0x22}) (py_strip path)) = [] then []
      else if normalize_path path = [] then []
      else let parts = path_parts path
           in if parts = [] then [] else try_suffixes fs repo_dir parts)"

text \<open>
  A checkout whose regular files are \<^verbatim>\<open>src/a.py\<close> and \<^verbatim>\<open>passwd\<close>, none of them
  reached through a link that leaves the checkout.
\<close>

definition example_fs :: filesystem where
  "example_fs = \<lparr> stays_inside = (\<lambda>repo_dir p. True),
                  is_file = (\<lambda>repo_dir p. p = ''src/a.py'' \<or> p = ''passwd'') \<rparr>"

text \<open>A checkout whose only regular file is \<^verbatim>\<open>src/a.py\<close>.\<close>

definition example_fs_plain :: filesystem where
  "example_fs_plain = \<lparr> stays_inside = (\<lambda>repo_dir p. True),
                        is_file = (\<lambda>repo_dir p. p = ''src/a.py'') \<rparr>"

subsection \<open>Definition extraction\<close>

type_synonym ByteInterval = "int \<times> int"
type_synonym DefNode = "string \<times> int \<times> int"
type_synonym NamedDef = "string \<times> string \<times> int \<times> int"
type_synonym DefRecord = "string \<times> string \<times> int \<times> int"

text \<open>
  A node of a tree-sitter syntax tree, with the attributes the extractor reads. The field
  \<open>best_name\<close> stands for the string \<^verbatim>\<open>_best_name_for_def(node, src)\<close> reads from the
  source bytes of the node (empty when it finds none).
\<close>

datatype ts_node =
  Node (is_named: bool) (node_type: string) (start_byte: int) (end_byte: int)
       (best_name: string) (children: "ts_node list")

fun node_size :: "ts_node \<Rightarrow> nat" where
  "node_size (Node _ _ _ _ _ cs) = Suc (sum_list (map node_size cs))"

lemma node_size_pos: "0 < node_size n"
  by (cases n) simp

lemma node_size_children: "sum_list (map node_size (children n)) < node_size n"
  by (cases n) simp

text \<open>\<^verbatim>\<open>LANG_MAP\<close> and \<^verbatim>\<open>DEF_NODES\<close> (treesitter.py, lines 14-37).\<close>

definition LANG_MAP :: "string dict" where
  "LANG_MAP =
     [(''.py'', ''python''), (''.js'', ''javascript''), (''.jsx'', ''javascript''),
      (''.ts'', ''typescript''), (''.tsx'', ''tsx''), (''.java'', ''java''), (''.go'', ''go''),
      (''.rs'', ''rust''), (''.c'', ''c''), (''.h'', ''c''), (''.cpp'', ''cpp''), (''.cc'', ''cpp''),
      (''.hpp'', ''cpp''), (''.cs'', ''c_sharp''), (''.php'', ''php''), (''.rb'', ''ruby''),
      (''.swift'', ''swift''), (''.kt'', ''kotlin''), (''.scala'', ''scala'')]"

definition DEF_NODES :: "string list dict" where
  "DEF_NODES =
     [(''python'', [''function_definition'', ''class_definition'', ''async_function_definition'']),
      (''javascript'', [''function_declaration'', ''class_declaration'', ''method_definition'', ''arrow_function'']),
      (''typescript'', [''function_declaration'', ''class_declaration'', ''method_definition'', ''interface_declaration'']),
      (''tsx'', [''function_declaration'', ''class_declaration'', ''method_definition'', ''interface_declaration'']),
      (''java'', [''method_declaration'', ''class_declaration'', ''interface_declaration'', ''constructor_declaration'']),
      (''go'', [''function_declaration'', ''method_declaration'', ''type_declaration'']),
      (''rust'', [''function_item'', ''impl_item'', ''struct_item'', ''trait_item'']),
      (''c'', [''function_definition'', ''struct_specifier'']),
      (''cpp'', [''function_definition'', ''class_specifier'', ''struct_specifier'']),
      (''c_sharp'', [''method_declaration'', ''class_declaration'', ''interface_declaration'']),
      (''php'', [''function_definition'', ''method_declaration'', ''class_declaration'']),
      (''ruby'', [''method'', ''class'', ''module'']),
      (''swift'', [''function_declaration'', ''class_declaration'', ''protocol_declaration'']),
      (''kotlin'', [''function_declaration'', ''class_declaration'']),
      (''scala'', [''function_definition'', ''class_definition'', ''trait_definition''])]"

text \<open>\<^verbatim>\<open>str.lower()\<close> on ASCII letters.\<close>

definition py_lower :: "string \<Rightarrow> string" where
  "py_lower s = map (\<lambda>c. let n = (of_char c :: nat)
                         in if 65 \<le> n \<and> n \<le> 90 then char_of (n + 32) else c) s"

text \<open>
  The second component of \<^verbatim>\<open>os.path.splitext(p)\<close> (POSIX): the part of the last path
  segment from its last dot on, provided a character other than a dot precedes that dot
  in the segment; empty otherwise.
\<close>

definition splitext_ext :: "string \<Rightarrow> string" where
  "splitext_ext p =
     (let base = rev (takeWhile (\<lambda>c. c \<noteq> CHR ''/'') (rev p))
      in if CHR ''.'' \<in> set (dropWhile (\<lambda>c. c = CHR ''.'') base)
         then CHR ''.'' # rev (takeWhile (\<lambda>c. c \<noteq> CHR ''.'') (rev base))
         else [])"

text \<open>
  What the extractor needs of the checkout and of the tree-sitter installation. Paths are
  relative to the checkout: the source joins them to \<open>repo_dir\<close> before each call, and
  the extension of the joined path is that of the relative one.
  \<^item> \<open>ts_available\<close>: the module-level \<^verbatim>\<open>_TS_AVAILABLE\<close>;
  \<^item> \<open>get_parser lang\<close>: \<^verbatim>\<open>_get_parser(lang)\<close> returns a parser, without raising;
  \<^item> \<open>path_exists p\<close>: \<^verbatim>\<open>os.path.exists(os.path.join(repo_dir, p))\<close>;
  \<^item> \<open>parse_file p\<close>: the root node of the tree parsed from the bytes of the file,
    \<open>None\<close> when reading or parsing raises.
\<close>

record ts_env =
  ts_available :: bool
  get_parser :: "string \<Rightarrow> bool"
  path_exists :: "string \<Rightarrow> bool"
  parse_file :: "string \<Rightarrow> ts_node option"

datatype error = RuntimeError

text \<open>\<^verbatim>\<open>available\<close> and \<^verbatim>\<open>_get_parser_for_lang\<close> (treesitter.py, lines 63-86); the cache
  \<^verbatim>\<open>_PARSERS\<close> only remembers the answer.\<close>

definition available :: "ts_env \<Rightarrow> bool" where
  "available env = (if \<not> ts_available env then False else get_parser env ''python'')"

definition get_parser_for_lang :: "ts_env \<Rightarrow> string \<Rightarrow> bool" where
  "get_parser_for_lang env lang = (if \<not> available env then False else get_parser env lang)"

text \<open>
  The traversal of \<^verbatim>\<open>extract_defs\<close> (treesitter.py, lines 113-131). The head of the list
  is the top of the stack, the last element of the Python list: pushing the children in
  reverse leaves the first child on top.
\<close>

function walk_defs :: "string list \<Rightarrow> ts_node list \<Rightarrow> DefNode list" where
  "walk_defs target_types [] = []"
| "walk_defs target_types (node # stack) =
     (if \<not> is_named node then walk_defs target_types stack
      else if sublist ''comment'' (node_type node) then walk_defs target_types stack
      else (if node_type node \<in> set target_types
            then [(node_type node, start_byte node, end_byte node)] else []) @
           walk_defs target_types (children node @ stack))"
  by pat_completeness auto
termination
  by (relation "measure (\<lambda>(t, stack). sum_list (map node_size stack))")
     (simp_all add: node_size_pos node_size_children)

text \<open>\<^verbatim>\<open>_iter_descendants\<close> (treesitter.py, lines 152-158), with the same stack.\<close>

function iter_descendants :: "ts_node list \<Rightarrow> ts_node list" where
  "iter_descendants [] = []"
| "iter_descendants (cur # stack) = cur # iter_descendants (children cur @ stack)"
  by pat_completeness auto
termination
  by (relation "measure (\<lambda>stack. sum_list (map node_size stack))")
     (simp_all add: node_size_children)

text \<open>The language of a file: \<^verbatim>\<open>LANG_MAP.get(os.path.splitext(file_path.lower())[1])\<close>,
  \<open>None\<close> also when the language has no entry in \<^verbatim>\<open>DEF_NODES\<close>.\<close>

definition file_lang :: "string \<Rightarrow> string option" where
  "file_lang file_path =
     (case map_of LANG_MAP (splitext_ext (py_lower file_path)) of
        None \<Rightarrow> None
      | Some lang \<Rightarrow> if lang = [] \<or> map_of DEF_NODES lang = None then None else Some lang)"

text \<open>\<^verbatim>\<open>extract_defs\<close> (treesitter.py, lines 88-131).\<close>

definition extract_defs :: "ts_env \<Rightarrow> string \<Rightarrow> error + DefNode list" where
  "extract_defs env file_path =
     (if \<not> ts_available env then Inl RuntimeError
      else case file_lang file_path of
        None \<Rightarrow> Inr []
      | Some lang \<Rightarrow>
          if \<not> get_parser_for_lang env lang then Inl RuntimeError
          else case parse_file env file_path of
            None \<Rightarrow> Inr []
          | Some tree \<Rightarrow> Inr (walk_defs (dict_get DEF_NODES lang []) [tree]))"

text \<open>\<^verbatim>\<open>extract_named_defs\<close> (treesitter.py, lines 204-246).\<close>

definition extract_named_defs :: "ts_env \<Rightarrow> string \<Rightarrow> error + NamedDef list" where
  "extract_named_defs env file_path =
     (if \<not> ts_available env then Inl RuntimeError
      else case file_lang file_path of
        None \<Rightarrow> Inr []
      | Some lang \<Rightarrow>
          if \<not> get_parser_for_lang env lang then Inl RuntimeError
          else case parse_file env file_path of
            None \<Rightarrow> Inr []
          | Some tree \<Rightarrow>
              Inr (map (\<lambda>n. (node_type n, best_name n, start_byte n, end_byte n))
                     (filter (\<lambda>n. is_named n \<and> \<not> sublist ''comment'' (node_type n) \<and>
                                   node_type n \<in> set (dict_get DEF_NODES lang []) \<and>
                                   best_name n \<noteq> [])
                        (iter_descendants [tree]))))"

text \<open>
  The overlap test of \<^verbatim>\<open>extract_def_set_in_spans\<close> (treesitter.py, line 323) and the
  records one file contributes (lines 319-325).
\<close>

definition overlaps :: "DefNode \<Rightarrow> ByteInterval \<Rightarrow> bool" where
  "overlaps d sp =
     (case d of (kind, def_start, def_end) \<Rightarrow>
        case sp of (span_start, span_end) \<Rightarrow> \<not> (def_end < span_start \<or> def_start > span_end))"

definition defs_in_spans :: "string \<Rightarrow> DefNode list \<Rightarrow> ByteInterval list \<Rightarrow> DefRecord set" where
  "defs_in_spans file_path all_defs byte_intervals =
     (\<lambda>(kind, def_start, def_end). (file_path, kind, def_start, def_end)) `
       set (filter (\<lambda>d. list_ex (overlaps d) byte_intervals) all_defs)"

text \<open>
  \<^verbatim>\<open>extract_def_set_in_spans\<close> (treesitter.py, lines 304-327): the loop over the items
  of \<open>spans_by_file\<close>, with the set built so far. An exception of \<^verbatim>\<open>extract_defs\<close>
  ends the call.
\<close>

fun spans_loop :: "ts_env \<Rightarrow> ByteInterval list dict \<Rightarrow> DefRecord set \<Rightarrow> error + DefRecord set" where
  "spans_loop env [] result = Inr result"
| "spans_loop env ((file_path, byte_intervals) # rest) result =
     (if \<not> path_exists env file_path then spans_loop env rest result
      else case extract_defs env file_path of
        Inl e \<Rightarrow> Inl e
      | Inr all_defs \<Rightarrow>
          spans_loop env rest (result \<union> defs_in_spans file_path all_defs byte_intervals))"

definition extract_def_set_in_spans :: "ts_env \<Rightarrow> ByteInterval list dict \<Rightarrow> error + DefRecord set" where
  "extract_def_set_in_spans env spans_by_file = spans_loop env spans_by_file {}"

text \<open>
  The definitions one predicted symbol name selects (treesitter.py, lines 278-299): the
  name itself is tried first, then the part after its last dot.
\<close>

definition symbol_defs :: "NamedDef list \<Rightarrow> string \<Rightarrow> DefNode list" where
  "symbol_defs named_defs raw =
     (let sym = py_strip raw;
          by_name = (\<lambda>cand. map (\<lambda>(kind, name, s, e). (kind, s, e))
                              (filter (\<lambda>(kind, name, s, e). name = cand) named_defs));
          candidates = [sym] @ (if CHR ''.'' \<in> set sym then [last (py_split CHR ''.'' sym)] else [])
      in if raw = [] \<or> sym = [] then []
         else case filter (\<lambda>cand. by_name cand \<noteq> []) candidates of
                [] \<Rightarrow> []
              | cand # _ \<Rightarrow> by_name cand)"

text \<open>\<^verbatim>\<open>extract_def_set_from_symbol_names\<close> (treesitter.py, lines 249-301).\<close>

fun names_loop :: "ts_env \<Rightarrow> string list dict \<Rightarrow> DefRecord set \<Rightarrow> error + DefRecord set" where
  "names_loop env [] out = Inr out"
| "names_loop env ((rel_path, symbols) # rest) out =
     (if rel_path = [] then names_loop env rest out
      else if symbols = [] then names_loop env rest out
      else if \<not> path_exists env rel_path then names_loop env rest out
      else case extract_named_defs env rel_path of
        Inl e \<Rightarrow> Inl e
      | Inr named_defs \<Rightarrow>
          if named_defs = [] then names_loop env rest out
          else names_loop env rest
                 (out \<union> (\<lambda>(kind, s, e). (rel_path, kind, s, e)) `
                          set (concat (map (symbol_defs named_defs) symbols))))"

definition extract_def_set_from_symbol_names :: "ts_env \<Rightarrow> string list dict \<Rightarrow> error + DefRecord set" where
  "extract_def_set_from_symbol_names env pred_symbols_by_file =
     (if pred_symbols_by_file = [] then Inr {} else names_loop env pred_symbols_by_file {})"

text \<open>
  The definition records that touch a request: the records \<open>(f, kind, s, e)\<close> of a
  requested file \<open>f\<close> that exists, for a definition \<open>(kind, s, e)\<close> that
  \<^verbatim>\<open>extract_defs\<close> finds in \<open>f\<close> and that passes the overlap test with one of the
  intervals requested for \<open>f\<close>.
\<close>

definition touched :: "ts_env \<Rightarrow> ByteInterval list dict \<Rightarrow> DefRecord set" where
  "touched env spans_by_file =
     {(f, kind, s, e). \<exists>ivs all_defs. (f, ivs) \<in> set spans_by_file \<and> path_exists env f \<and>
         extract_defs env f = Inr all_defs \<and> (kind, s, e) \<in> set all_defs \<and>
         (\<exists>(a, b) \<in> set ivs. \<not> (e < a \<or> s > b))}"

text \<open>
  The syntax tree of a Python file of 100 bytes: a class \<open>C\<close> (bytes 0 to 55) with a
  method \<open>m\<close> (bytes 10 to 50), a comment, and a function \<open>g\<close> (bytes 60 to 90); and a
  checkout that holds this file as \<^verbatim>\<open>a.py\<close>, with every parser installed.
\<close>

definition example_tree :: ts_node where
  "example_tree =
     Node True ''module'' 0 100 [] [
       Node True ''class_definition'' 0 55 ''C'' [
         Node True ''identifier'' 6 7 [] [],
         Node True ''block'' 9 55 [] [
           Node True ''function_definition'' 10 50 ''m'' []]],
       Node True ''comment'' 56 59 [] [],
       Node True ''function_definition'' 60 90 ''g'' []]"

definition example_ts :: ts_env where
  "example_ts = \<lparr> ts_available = True, get_parser = (\<lambda>lang. True),
                  path_exists = (\<lambda>p. p = ''a.py''),
                  parse_file = (\<lambda>p. if p = ''a.py'' then Some example_tree else None) \<rparr>"

subsection \<open>Edit localization\<close>

record editloc =
  el_recall :: real
  el_precision :: real
  el_intersection :: int
  el_gold_size :: int
  el_pred_size :: int

text \<open>
  The list \<^verbatim>\<open>pred_lines\<close> of \<^verbatim>\<open>evaluate_instance\<close> (evaluate.py, lines 253-257):
  one entry per file, interval and line of \<^verbatim>\<open>range(start, end + 1)\<close>.
\<close>

definition edit_lines :: "LineInterval list dict \<Rightarrow> (string \<times> int) list" where
  "edit_lines pred_line_edits =
     concat (map (\<lambda>(file_path, intervals).
               concat (map (\<lambda>(start, end). map (\<lambda>line_num. (file_path, line_num)) [start..end])
                         intervals))
             pred_line_edits)"

text \<open>The test \<^verbatim>\<open>in_gold\<close> of one entry (evaluate.py, lines 254 and 259-263).\<close>

definition in_gold :: "LineInterval list dict \<Rightarrow> string \<times> int \<Rightarrow> bool" where
  "in_gold gold_ranges_by_file entry =
     (case entry of (file_path, line_num) \<Rightarrow>
        list_ex (\<lambda>(gold_start, gold_end). gold_start \<le> line_num \<and> line_num \<le> gold_end)
          (dict_get gold_ranges_by_file file_path []))"

text \<open>
  The EditLoc part of \<^verbatim>\<open>evaluate_instance\<close> (evaluate.py, lines 234-288); the result is
  \<open>None\<close> when the row gets no \<^verbatim>\<open>editloc\<close> entry. The parser of unified diffs,
  \<^verbatim>\<open>parse_diff_lines(patch, deletions_only)\<close> of \<^verbatim>\<open>contextbench/parsers/diff.py\<close>, is a
  parameter. \<open>model_patch\<close> is \<^verbatim>\<open>pred_data.get("model_patch", "") or ""\<close>, \<open>gold_patch\<close>
  is the \<^verbatim>\<open>patch\<close> of the gold row (empty when absent), \<open>gold_line_spans\<close> is
  \<^verbatim>\<open>gold.line_spans_init()\<close>, of which \<^verbatim>\<open>gold_ranges_by_file\<close> is a copy.
\<close>

definition editloc_metrics ::
  "(string \<Rightarrow> bool \<Rightarrow> LineInterval list dict) \<Rightarrow> string \<Rightarrow> string \<Rightarrow> LineInterval list dict \<Rightarrow> editloc option" where
  "editloc_metrics parse_diff_lines model_patch gold_patch gold_line_spans =
     (let model_patch = (if model_patch = [] then gold_patch else model_patch)
      in if model_patch = [] then None
         else
           let pred_line_edits = parse_diff_lines model_patch True;
               gold_ranges_by_file = gold_line_spans;
               pred_lines = edit_lines pred_line_edits;
               pred_lines_in_gold = filter (in_gold gold_ranges_by_file) pred_lines;
               pred_line_count = int (length pred_lines);
               hit_count = int (length pred_lines_in_gold);
               recall = (if pred_line_count > 0 then real_of_int hit_count / real_of_int pred_line_count else 0);
               precision = (if pred_line_count > 0 then real_of_int hit_count / real_of_int pred_line_count else 0);
               gold_line_count = (\<Sum>intervals \<leftarrow> map snd gold_line_spans.
                                    \<Sum>(start, end) \<leftarrow> intervals. end - start + 1)
           in Some \<lparr> el_recall = recall, el_precision = precision, el_intersection = hit_count,
                     el_gold_size = gold_line_count, el_pred_size = pred_line_count \<rparr>)"

text \<open>
  The deleted lines a parsed diff names, as a set of pairs of a file and a line number,
  and those of them that lie in a gold range of their file.
\<close>

definition deleted_lines :: "LineInterval list dict \<Rightarrow> (string \<times> int) set" where
  "deleted_lines pred_line_edits =
     {(f, l). \<exists>ivs. (f, ivs) \<in> set pred_line_edits \<and> (\<exists>(s, e) \<in> set ivs. s \<le> l \<and> l \<le> e)}"

definition deleted_lines_in_gold :: "LineInterval list dict \<Rightarrow> LineInterval list dict \<Rightarrow> (string \<times> int) set" where
  "deleted_lines_in_gold pred_line_edits gold_line_spans =
     {(f, l). (f, l) \<in> deleted_lines pred_line_edits \<and>
              (\<exists>(gs, ge) \<in> set (dict_get gold_line_spans f []). gs \<le> l \<and> l \<le> ge)}"

subsection \<open>Aggregation\<close>

record gran_metric =
  gm_coverage :: real
  gm_precision :: real
  gm_intersection :: int
  gm_gold_size :: int
  gm_pred_size :: int

text \<open>
  A result row as \<^verbatim>\<open>aggregate_results\<close> reads it: whether it has the key \<^verbatim>\<open>error\<close>,
  its \<^verbatim>\<open>final\<close> dict, the \<^verbatim>\<open>auc_coverage\<close> and \<^verbatim>\<open>redundancy\<close> dicts of its
  \<^verbatim>\<open>trajectory\<close> (each empty when absent), and its \<^verbatim>\<open>editloc\<close> entry.
\<close>

record result_row =
  has_error :: bool
  r_final :: "gran_metric dict"
  r_auc_coverage :: "real dict"
  r_redundancy :: "real dict"
  r_editloc :: "editloc option"

record aggregate =
  num_valid :: nat
  num_total :: nat
  agg_final :: "(real \<times> real) dict"
  agg_traj_auc :: "real dict"
  agg_traj_redundancy :: "real dict"
  agg_editloc :: "(real \<times> real) option"

definition granularities :: "string list" where
  "granularities = [''file'', ''symbol'', ''span'', ''line'']"

text \<open>
  \<^verbatim>\<open>aggregate_results\<close> (evaluate.py, lines 533-567). The entries \<^verbatim>\<open>final_<gran>\<close>,
  \<^verbatim>\<open>traj_auc_<gran>\<close> and \<^verbatim>\<open>traj_redundancy_<gran>\<close> are keyed by the granularity;
  the pairs are (coverage, precision) and, for \<^verbatim>\<open>editloc\<close>, (recall, precision).
\<close>

definition aggregate_results :: "result_row list \<Rightarrow> aggregate" where
  "aggregate_results results =
     (let valid = filter (\<lambda>r. \<not> has_error r) results
      in if valid = [] then
           \<lparr> num_valid = 0, num_total = length results, agg_final = [], agg_traj_auc = [],
             agg_traj_redundancy = [], agg_editloc = None \<rparr>
         else
           \<lparr> num_valid = length valid, num_total = length results,
             agg_final = concat (map (\<lambda>gran.
               if list_ex (\<lambda>r. map_of (r_final r) gran \<noteq> None) valid then
                 let intersection = (\<Sum>r \<leftarrow> valid. case map_of (r_final r) gran of None \<Rightarrow> 0 | Some m \<Rightarrow> gm_intersection m);
                     gold_size = (\<Sum>r \<leftarrow> valid. case map_of (r_final r) gran of None \<Rightarrow> 0 | Some m \<Rightarrow> gm_gold_size m);
                     pred_size = (\<Sum>r \<leftarrow> valid. case map_of (r_final r) gran of None \<Rightarrow> 0 | Some m \<Rightarrow> gm_pred_size m)
                 in [(gran, coverage_precision (real_of_int pred_size) (real_of_int gold_size) (real_of_int intersection))]
               else []) granularities),
             agg_traj_auc = concat (map (\<lambda>gran.
               if list_ex (\<lambda>r. map_of (r_auc_coverage r) gran \<noteq> None) valid then
                 [(gran, (\<Sum>r \<leftarrow> valid. dict_get (r_auc_coverage r) gran 0) / real (length valid))]
               else []) granularities),
             agg_traj_redundancy = concat (map (\<lambda>gran.
               if list_ex (\<lambda>r. map_of (r_auc_coverage r) gran \<noteq> None) valid then
                 [(gran, (\<Sum>r \<leftarrow> valid. dict_get (r_redundancy r) gran 0) / real (length valid))]
               else []) granularities),
             agg_editloc =
               (if list_ex (\<lambda>r. r_editloc r \<noteq> None) valid then
                  let intersection = (\<Sum>r \<leftarrow> valid. case r_editloc r of None \<Rightarrow> 0 | Some el \<Rightarrow> el_intersection el);
                      gold_size = (\<Sum>r \<leftarrow> valid. case r_editloc r of None \<Rightarrow> 0 | Some el \<Rightarrow> el_gold_size el);
                      pred_size = (\<Sum>r \<leftarrow> valid. case r_editloc r of None \<Rightarrow> 0 | Some el \<Rightarrow> el_pred_size el)
                  in Some (coverage_precision (real_of_int pred_size) (real_of_int gold_size) (real_of_int intersection))
                else None) \<rparr>)"

subsection \<open>Steps and trajectories\<close>

text \<open>
  A span of a step is the dict \<^verbatim>\<open>{'file', 'start_line', 'end_line'}\<close> that
  \<^verbatim>\<open>parse_trajectory\<close> builds; an empty \<open>sp_file\<close> is the falsy file name. \<^verbatim>\<open>Step\<close>
  (trajectory.py, lines 8-13).
\<close>

record span =
  sp_file :: string
  start_line :: int
  end_line :: int

record step =
  st_files :: "string list"
  st_spans :: "span list"
  st_symbols :: "string list dict"

text \<open>
  One entry of \<^verbatim>\<open>pred_steps\<close> and the dict \<^verbatim>\<open>traj_data\<close>, as \<^verbatim>\<open>parse_trajectory\<close>
  reads them: a key that is absent has its default (an empty list or dict), a span
  \<^verbatim>\<open>{'start': s, 'end': e}\<close> is the pair \<open>(s, e)\<close>. The field \<open>td_pred_steps\<close> is the
  key \<^verbatim>\<open>pred_steps\<close>, and so on.
\<close>

record raw_step =
  rs_files :: "string list"
  rs_spans :: "(int \<times> int) list dict"
  rs_symbols :: "string list dict"

record traj_data =
  td_pred_steps :: "raw_step list"
  td_pred_files :: "string list"
  td_pred_spans :: "(int \<times> int) list dict"
  td_pred_symbols :: "string list dict"

text \<open>The conversion of a spans dict to the list format (trajectory.py, lines 38-45 and 54-61).\<close>

definition spans_of_dict :: "(int \<times> int) list dict \<Rightarrow> span list" where
  "spans_of_dict spans_dict =
     concat (map (\<lambda>(file_path, file_spans).
               map (\<lambda>(s, e). \<lparr> sp_file = file_path, start_line = s, end_line = e \<rparr>) file_spans)
             spans_dict)"

text \<open>\<^verbatim>\<open>parse_trajectory\<close> (trajectory.py, lines 16-69), applied to \<^verbatim>\<open>data.get('traj_data', {})\<close>.\<close>

definition parse_trajectory :: "traj_data \<Rightarrow> step list \<times> step" where
  "parse_trajectory td =
     (let traj_steps = map (\<lambda>step_data.
                          \<lparr> st_files = rs_files step_data,
                            st_spans = spans_of_dict (rs_spans step_data),
                            st_symbols = rs_symbols step_data \<rparr>) (td_pred_steps td);
          final_step = \<lparr> st_files = td_pred_files td,
                         st_spans = spans_of_dict (td_pred_spans td),
                         st_symbols = td_pred_symbols td \<rparr>;
          traj_steps = (if traj_steps = [] then [final_step] else traj_steps)
      in (traj_steps, final_step))"

subsection \<open>Metrics\<close>

text \<open>
  The checkout as the metrics read it: the extractor's view \<open>ts\<close>, and the byte-level
  helpers of \<^verbatim>\<open>contextbench/core\<close>, which are parameters:
  \<^item> \<open>line_to_byte f s e\<close> is \<^verbatim>\<open>line_to_byte(os.path.join(repo_dir, f), s, e)\<close>, \<open>None\<close>
    when the result is falsy;
  \<^item> \<open>byte_merge\<close>, \<open>byte_length\<close> and \<open>byte_intersect_size\<close> are \<^verbatim>\<open>merge\<close>,
    \<^verbatim>\<open>length\<close> and \<^verbatim>\<open>intersect_size\<close> of \<^verbatim>\<open>core.intervals\<close>.
\<close>

record repo_env =
  ts :: ts_env
  line_to_byte :: "string \<Rightarrow> int \<Rightarrow> int \<Rightarrow> ByteInterval option"
  byte_merge :: "ByteInterval list \<Rightarrow> ByteInterval list"
  byte_length :: "ByteInterval list \<Rightarrow> int"
  byte_intersect_size :: "ByteInterval list \<Rightarrow> ByteInterval list \<Rightarrow> int"

text \<open>\<^verbatim>\<open>result.setdefault(k, []).append(x)\<close>.\<close>

definition dict_append :: "'v list dict \<Rightarrow> string \<Rightarrow> 'v \<Rightarrow> 'v list dict" where
  "dict_append d k x = AList.update k (dict_get d k [] @ [x]) d"

text \<open>\<^verbatim>\<open>span_total_bytes\<close> and \<^verbatim>\<open>span_intersection_bytes\<close> (compute.py, lines 13-22).\<close>

definition span_total_bytes :: "repo_env \<Rightarrow> ByteInterval list dict \<Rightarrow> int" where
  "span_total_bytes env spans_by_file =
     (\<Sum>intervals \<leftarrow> map snd spans_by_file. byte_length env intervals)"

definition span_intersection_bytes :: "repo_env \<Rightarrow> ByteInterval list dict \<Rightarrow> ByteInterval list dict \<Rightarrow> int" where
  "span_intersection_bytes env a b =
     (\<Sum>f \<in> set (map fst a) \<union> set (map fst b).
        byte_intersect_size env (dict_get a f []) (dict_get b f []))"

record granularity_metrics =
  gm_file :: gran_metric
  gm_symbol :: gran_metric
  gm_span :: gran_metric
  gm_line :: gran_metric

text \<open>
  \<^verbatim>\<open>compute_granularity_metrics\<close> (compute.py, lines 92-139); \<open>pred_lines\<close> and
  \<open>gold_lines\<close> are \<open>None\<close> for the Python \<^verbatim>\<open>None\<close>.
\<close>

definition compute_granularity_metrics ::
  "repo_env \<Rightarrow> string set \<Rightarrow> DefRecord set \<Rightarrow> ByteInterval list dict \<Rightarrow>
   string set \<Rightarrow> DefRecord set \<Rightarrow> ByteInterval list dict \<Rightarrow>
   LineInterval list dict option \<Rightarrow> LineInterval list dict option \<Rightarrow> granularity_metrics" where
  "compute_granularity_metrics env pred_files pred_defs pred_spans gold_files gold_defs gold_spans
     pred_lines gold_lines =
     (let file_inter = int (card (pred_files \<inter> gold_files));
          (file_cov, file_prec) = coverage_precision (real (card pred_files)) (real (card gold_files))
                                    (real_of_int file_inter);
          def_inter = int (card (pred_defs \<inter> gold_defs));
          (def_cov, def_prec) = coverage_precision (real (card pred_defs)) (real (card gold_defs))
                                  (real_of_int def_inter);
          span_pred = span_total_bytes env pred_spans;
          span_gold = span_total_bytes env gold_spans;
          span_inter = span_intersection_bytes env pred_spans gold_spans;
          (span_cov, span_prec) = coverage_precision (real_of_int span_pred) (real_of_int span_gold)
                                    (real_of_int span_inter);
          (line_pred, line_gold, line_inter, line_cov, line_prec) =
            (case (pred_lines, gold_lines) of
               (Some pl, Some gl) \<Rightarrow>
                 (let line_pred = line_total_lines pl;
                      line_gold = line_total_lines gl;
                      line_inter = line_intersection_lines pl gl;
                      (line_cov, line_prec) = coverage_precision (real_of_int line_pred)
                                                (real_of_int line_gold) (real_of_int line_inter)
                  in (line_pred, line_gold, line_inter, line_cov, line_prec))
             | _ \<Rightarrow> (0, 0, 0, 0, 0))
      in \<lparr> gm_file = \<lparr> gm_coverage = file_cov, gm_precision = file_prec, gm_intersection = file_inter,
                       gm_gold_size = int (card gold_files), gm_pred_size = int (card pred_files) \<rparr>,
           gm_symbol = \<lparr> gm_coverage = def_cov, gm_precision = def_prec, gm_intersection = def_inter,
                         gm_gold_size = int (card gold_defs), gm_pred_size = int (card pred_defs) \<rparr>,
           gm_span = \<lparr> gm_coverage = span_cov, gm_precision = span_prec, gm_intersection = span_inter,
                       gm_gold_size = span_gold, gm_pred_size = span_pred \<rparr>,
           gm_line = \<lparr> gm_coverage = line_cov, gm_precision = line_prec, gm_intersection = line_inter,
                       gm_gold_size = line_gold, gm_pred_size = line_pred \<rparr> \<rparr>)"

text \<open>\<^verbatim>\<open>_step_to_line_intervals\<close> (compute.py, lines 141-157).\<close>

definition step_to_line_intervals :: "step \<Rightarrow> LineInterval list dict" where
  "step_to_line_intervals step =
     (let result = foldl (\<lambda>result sp.
                      if sp_file sp = [] then result
                      else if start_line sp > 0 \<and> end_line sp > 0
                           then dict_append result (sp_file sp) (start_line sp, end_line sp)
                           else result) [] (st_spans step)
      in map (\<lambda>(f, ivs). (f, merge_line_intervals ivs)) result)"

text \<open>\<^verbatim>\<open>_step_to_byte_spans\<close> (compute.py, lines 252-270).\<close>

definition step_to_byte_spans :: "repo_env \<Rightarrow> step \<Rightarrow> ByteInterval list dict" where
  "step_to_byte_spans env step =
     (let result = foldl (\<lambda>result sp.
                      if sp_file sp = [] then result
                      else case line_to_byte env (sp_file sp) (start_line sp) (end_line sp) of
                             None \<Rightarrow> result
                           | Some byte_span \<Rightarrow> dict_append result (sp_file sp) byte_span)
                    [] (st_spans step)
      in map (\<lambda>(f, ivs). (f, byte_merge env ivs)) result)"

text \<open>The symbols of a step (compute.py, lines 194-197).\<close>

definition step_symbols :: "repo_env \<Rightarrow> step \<Rightarrow> error + DefRecord set" where
  "step_symbols env step =
     (if st_symbols step \<noteq> [] then extract_def_set_from_symbol_names (ts env) (st_symbols step)
      else extract_def_set_in_spans (ts env) (step_to_byte_spans env step))"

text \<open>The updates of \<^verbatim>\<open>union_spans\<close> and \<^verbatim>\<open>union_lines\<close> (compute.py, lines 202-205).\<close>

definition merge_spans_into :: "repo_env \<Rightarrow> ByteInterval list dict \<Rightarrow> ByteInterval list dict \<Rightarrow> ByteInterval list dict" where
  "merge_spans_into env union_spans step_spans =
     foldl (\<lambda>u (f, ivs). AList.update f (byte_merge env (dict_get u f [] @ ivs)) u)
       union_spans step_spans"

definition merge_lines_into :: "LineInterval list dict \<Rightarrow> LineInterval list dict \<Rightarrow> LineInterval list dict" where
  "merge_lines_into union_lines step_lines =
     foldl (\<lambda>u (f, ivs). AList.update f (merge_line_intervals (dict_get u f [] @ ivs)) u)
       union_lines step_lines"

record coverage4 =
  c_file :: real
  c_symbol :: real
  c_span :: real
  c_line :: real

record step_metric =
  sm_step :: nat
  sm_coverage :: coverage4

record trajectory_metrics =
  tm_steps :: "step_metric list"
  auc_coverage :: coverage4
  redundancy :: coverage4

text \<open>The local variables of the loop of \<^verbatim>\<open>compute_trajectory_metrics\<close>.\<close>

record traj_state =
  union_files :: "string set"
  union_symbols :: "DefRecord set"
  union_spans :: "ByteInterval list dict"
  union_lines :: "LineInterval list dict"
  sum_files :: int
  sum_symbols :: int
  sum_spans :: int
  sum_lines :: int
  per_step_metrics :: "step_metric list"

text \<open>The coverage of the unions at one step (compute.py, lines 207-220).\<close>

definition coverage_now ::
  "repo_env \<Rightarrow> string set \<Rightarrow> DefRecord set \<Rightarrow> ByteInterval list dict \<Rightarrow> LineInterval list dict \<Rightarrow>
   string set \<Rightarrow> DefRecord set \<Rightarrow> ByteInterval list dict \<Rightarrow> LineInterval list dict \<Rightarrow> coverage4" where
  "coverage_now env gold_files gold_symbols gold_spans gold_lines u_files u_symbols u_spans u_lines =
     (let file_cov = (if gold_files \<noteq> {} then real (card (u_files \<inter> gold_files)) / real (card gold_files) else 1);
          symbol_cov = (if gold_symbols \<noteq> {} then real (card (u_symbols \<inter> gold_symbols)) / real (card gold_symbols) else 1);
          span_inter = span_intersection_bytes env u_spans gold_spans;
          span_gold = span_total_bytes env gold_spans;
          span_cov = (if span_gold > 0 then real_of_int span_inter / real_of_int span_gold else 1);
          line_cov = (if gold_lines \<noteq> [] then
                        let line_inter = line_intersection_lines u_lines gold_lines;
                            line_gold = line_total_lines gold_lines
                        in if line_gold > 0 then real_of_int line_inter / real_of_int line_gold else 1
                      else 0)
      in \<lparr> c_file = file_cov, c_symbol = symbol_cov, c_span = span_cov, c_line = line_cov \<rparr>)"

text \<open>
  One iteration of the loop (compute.py, lines 189-231) for the step of index \<open>t\<close>; an
  exception of the symbol extraction ends the call.
\<close>

definition traj_step ::
  "repo_env \<Rightarrow> string set \<Rightarrow> DefRecord set \<Rightarrow> ByteInterval list dict \<Rightarrow> LineInterval list dict \<Rightarrow>
   traj_state \<Rightarrow> nat \<Rightarrow> step \<Rightarrow> error + traj_state" where
  "traj_step env gold_files gold_symbols gold_spans gold_lines s t step =
     (let step_files = set (st_files step);
          step_lines = step_to_line_intervals step;
          step_spans = step_to_byte_spans env step
      in case step_symbols env step of
           Inl e \<Rightarrow> Inl e
         | Inr step_syms \<Rightarrow>
             let u_files = union_files s \<union> step_files;
                 u_symbols = union_symbols s \<union> step_syms;
                 u_spans = merge_spans_into env (union_spans s) step_spans;
                 u_lines = merge_lines_into (union_lines s) step_lines
             in Inr \<lparr> union_files = u_files, union_symbols = u_symbols, union_spans = u_spans,
                       union_lines = u_lines,
                       sum_files = sum_files s + int (card step_files),
                       sum_symbols = sum_symbols s + int (card step_syms),
                       sum_spans = sum_spans s + span_total_bytes env step_spans,
                       sum_lines = sum_lines s + line_total_lines step_lines,
                       per_step_metrics = per_step_metrics s @
                         [\<lparr> sm_step = t + 1,
                            sm_coverage = coverage_now env gold_files gold_symbols gold_spans gold_lines
                                            u_files u_symbols u_spans u_lines \<rparr>] \<rparr>)"

fun traj_loop ::
  "repo_env \<Rightarrow> string set \<Rightarrow> DefRecord set \<Rightarrow> ByteInterval list dict \<Rightarrow> LineInterval list dict \<Rightarrow>
   traj_state \<Rightarrow> nat \<Rightarrow> step list \<Rightarrow> error + traj_state" where
  "traj_loop env gold_files gold_symbols gold_spans gold_lines s t [] = Inr s"
| "traj_loop env gold_files gold_symbols gold_spans gold_lines s t (step # steps) =
     (case traj_step env gold_files gold_symbols gold_spans gold_lines s t step of
        Inl e \<Rightarrow> Inl e
      | Inr s' \<Rightarrow> traj_loop env gold_files gold_symbols gold_spans gold_lines s' (t + 1) steps)"

definition initial_state :: traj_state where
  "initial_state = \<lparr> union_files = {}, union_symbols = {}, union_spans = [], union_lines = [],
                     sum_files = 0, sum_symbols = 0, sum_spans = 0, sum_lines = 0,
                     per_step_metrics = [] \<rparr>"

text \<open>\<^verbatim>\<open>compute_trajectory_metrics\<close> (compute.py, lines 159-249).\<close>

definition compute_trajectory_metrics ::
  "repo_env \<Rightarrow> step list \<Rightarrow> string set \<Rightarrow> DefRecord set \<Rightarrow> ByteInterval list dict \<Rightarrow>
   LineInterval list dict option \<Rightarrow> error + trajectory_metrics" where
  "compute_trajectory_metrics env steps gold_files gold_symbols gold_spans gold_lines =
     (let T = length steps
      in if T = 0 then
           Inr \<lparr> tm_steps = [],
                 auc_coverage = \<lparr> c_file = 0, c_symbol = 0, c_span = 0, c_line = 0 \<rparr>,
                 redundancy = \<lparr> c_file = 0, c_symbol = 0, c_span = 0, c_line = 0 \<rparr> \<rparr>
         else
           let gold_lines = (case gold_lines of None \<Rightarrow> [] | Some g \<Rightarrow> g)
           in case traj_loop env gold_files gold_symbols gold_spans gold_lines initial_state 0 steps of
                Inl e \<Rightarrow> Inl e
              | Inr s \<Rightarrow>
                  let auc_file = (\<Sum>m \<leftarrow> per_step_metrics s. c_file (sm_coverage m)) / real T;
                      auc_symbol = (\<Sum>m \<leftarrow> per_step_metrics s. c_symbol (sm_coverage m)) / real T;
                      auc_span = (\<Sum>m \<leftarrow> per_step_metrics s. c_span (sm_coverage m)) / real T;
                      auc_line = (\<Sum>m \<leftarrow> per_step_metrics s. c_line (sm_coverage m)) / real T;
                      red_file = (if sum_files s > 0
                                  then 1 - real (card (union_files s)) / real_of_int (sum_files s) else 0);
                      red_symbol = (if sum_symbols s > 0
                                    then 1 - real (card (union_symbols s)) / real_of_int (sum_symbols s) else 0);
                      red_span = (if sum_spans s > 0
                                  then 1 - real_of_int (span_total_bytes env (union_spans s)) / real_of_int (sum_spans s)
                                  else 0);
                      red_line = (if sum_lines s > 0
                                  then 1 - real_of_int (line_total_lines (union_lines s)) / real_of_int (sum_lines s)
                                  else 0)
                  in Inr \<lparr> tm_steps = per_step_metrics s,
                           auc_coverage = \<lparr> c_file = auc_file, c_symbol = auc_symbol,
                                            c_span = auc_span, c_line = auc_line \<rparr>,
                           redundancy = \<lparr> c_file = red_file, c_symbol = red_symbol,
                                          c_span = red_span, c_line = red_line \<rparr> \<rparr>)"

text \<open>
  The cumulative union of a list of steps, at each granularity. The symbols of a step are
  those its extraction returns (none if it raises); byte spans and line intervals are
  accumulated file by file, as the loop does.
\<close>

definition step_syms :: "repo_env \<Rightarrow> step \<Rightarrow> DefRecord set" where
  "step_syms env step = (case step_symbols env step of Inr syms \<Rightarrow> syms | Inl e \<Rightarrow> {})"

definition cum_files :: "step list \<Rightarrow> string set" where
  "cum_files steps = (\<Union>s \<in> set steps. set (st_files s))"

definition cum_symbols :: "repo_env \<Rightarrow> step list \<Rightarrow> DefRecord set" where
  "cum_symbols env steps = (\<Union>s \<in> set steps. step_syms env s)"

definition cum_spans :: "repo_env \<Rightarrow> step list \<Rightarrow> ByteInterval list dict" where
  "cum_spans env steps = foldl (merge_spans_into env) [] (map (step_to_byte_spans env) steps)"

definition cum_lines :: "step list \<Rightarrow> LineInterval list dict" where
  "cum_lines steps = foldl merge_lines_into [] (map step_to_line_intervals steps)"

text \<open>The coverage of the cumulative union of a list of steps against gold.\<close>

definition cum_coverage ::
  "repo_env \<Rightarrow> string set \<Rightarrow> DefRecord set \<Rightarrow> ByteInterval list dict \<Rightarrow> LineInterval list dict \<Rightarrow>
   step list \<Rightarrow> coverage4" where
  "cum_coverage env gold_files gold_symbols gold_spans gold_lines steps =
     coverage_now env gold_files gold_symbols gold_spans gold_lines
       (cum_files steps) (cum_symbols env steps) (cum_spans env steps) (cum_lines steps)"

text \<open>The gold line map the loop uses: the empty dict for \<^verbatim>\<open>None\<close>.\<close>

definition unwrap_gold_lines :: "LineInterval list dict option \<Rightarrow> LineInterval list dict" where
  "unwrap_gold_lines gold_lines = (case gold_lines of None \<Rightarrow> [] | Some g \<Rightarrow> g)"

text \<open>
  The entry of \<^verbatim>\<open>per_step_metrics\<close> for the step of index \<open>t\<close>, stated on the
  cumulative union of the steps up to it.
\<close>

definition step_entry ::
  "repo_env \<Rightarrow> string set \<Rightarrow> DefRecord set \<Rightarrow> ByteInterval list dict \<Rightarrow> LineInterval list dict \<Rightarrow>
   step list \<Rightarrow> nat \<Rightarrow> step_metric" where
  "step_entry env gf gs gsp gl steps t =
     \<lparr> sm_step = t + 1, sm_coverage = cum_coverage env gf gs gsp gl (take (t + 1) steps) \<rparr>"

text \<open>
  A checkout for the examples: the file \<^verbatim>\<open>a.py\<close> of \<open>example_ts\<close> with ten bytes per
  line, and byte intervals that are closed ranges, never coalesced.
\<close>

definition example_env :: repo_env where
  "example_env =
     \<lparr> ts = example_ts,
       line_to_byte = (\<lambda>f s e. if f = ''a.py'' then Some (10 * (s - 1), 10 * e - 1) else None),
       byte_merge = remdups,
       byte_length = (\<lambda>ivs. \<Sum>(s, e) \<leftarrow> remdups ivs. e - s + 1),
       byte_intersect_size = (\<lambda>a b. \<Sum>(s, e) \<leftarrow> remdups a. \<Sum>(s', e') \<leftarrow> remdups b.
                                 max 0 (min e e' - max s s' + 1)) \<rparr>"

text \<open>
  Two trajectories for the examples: one that reads lines 7 and 8 of \<^verbatim>\<open>a.py\<close> and
  then opens \<^verbatim>\<open>b.py\<close>, and the step of one that reads lines 1 to 50 of \<^verbatim>\<open>a.py\<close>.
\<close>

definition example_steps :: "step list" where
  "example_steps =
     [\<lparr> st_files = [''a.py''],
        st_spans = [\<lparr> sp_file = ''a.py'', start_line = 7, end_line = 8 \<rparr>],
        st_symbols = [] \<rparr>,
      \<lparr> st_files = [''b.py''], st_spans = [], st_symbols = [] \<rparr>]"


definition reread_step :: step where
  "reread_step = \<lparr> st_files = [''a.py''],
                   st_spans = [\<lparr> sp_file = ''a.py'', start_line = 1, end_line = 50 \<rparr>],
                   st_symbols = [] \<rparr>"

text \<open>
  A raw trajectory without exploration steps whose final context is lines 7 and 8 of
  \<^verbatim>\<open>a.py\<close>.
\<close>

definition example_traj_data :: traj_data where
  "example_traj_data = \<lparr> td_pred_steps = [], td_pred_files = [''a.py''],
                         td_pred_spans = [(''a.py'', [(7, 8)])], td_pred_symbols = [] \<rparr>"

subsection \<open>Line sets\<close>

text \<open>Line intervals that respect the invariant \<open>start \<le> end\<close> of the data model.\<close>

definition valid_intervals :: "LineInterval list \<Rightarrow> bool" where
  "valid_intervals ivs = list_all (\<lambda>(s, e). s \<le> e) ivs"

text \<open>The lines a line dict denotes, as pairs of a file and a line number.\<close>

definition dict_lines :: "LineInterval list dict \<Rightarrow> (string \<times> int) set" where
  "dict_lines d = {(f, l). l \<in> lines_of (dict_get d f [])}"

text \<open>A well-formed line dict: distinct keys, intervals with \<open>start \<le> end\<close>.\<close>

definition valid_dict :: "LineInterval list dict \<Rightarrow> bool" where
  "valid_dict d = (distinct (map fst d) \<and> list_all (\<lambda>(f, ivs). valid_intervals ivs) d)"

text \<open>
  The lines a step observes: those of its spans that have a file name and positive line
  numbers, the spans \<^verbatim>\<open>_step_to_line_intervals\<close> keeps.
\<close>

definition step_line_set :: "step \<Rightarrow> (string \<times> int) set" where
  "step_line_set x =
     {(f, l). \<exists>sp \<in> set (st_spans x). sp_file sp = f \<and> f \<noteq> [] \<and> 0 < start_line sp \<and>
                 0 < end_line sp \<and> start_line sp \<le> l \<and> l \<le> end_line sp}"

text \<open>A step whose spans all have \<open>start_line \<le> end_line\<close>.\<close>

definition well_formed_step :: "step \<Rightarrow> bool" where
  "well_formed_step x = list_all (\<lambda>sp. start_line sp \<le> end_line sp) (st_spans x)"

text \<open>
  The loop bodies of \<^verbatim>\<open>_step_to_line_intervals\<close> and of the update of
  \<^verbatim>\<open>union_lines\<close>, and the intervals a step lists for one file; they are used in the
  proofs only.
\<close>

definition add_line_span :: "LineInterval list dict \<Rightarrow> span \<Rightarrow> LineInterval list dict" where
  "add_line_span result sp =
     (if sp_file sp = [] then result
      else if start_line sp > 0 \<and> end_line sp > 0
           then dict_append result (sp_file sp) (start_line sp, end_line sp)
           else result)"

definition sel_spans :: "string \<Rightarrow> span list \<Rightarrow> LineInterval list" where
  "sel_spans f sps =
     map (\<lambda>sp. (start_line sp, end_line sp))
       (filter (\<lambda>sp. sp_file sp = f \<and> f \<noteq> [] \<and> 0 < start_line sp \<and> 0 < end_line sp) sps)"

definition merge_line_entry :: "LineInterval list dict \<Rightarrow> string \<times> LineInterval list \<Rightarrow> LineInterval list dict" where
  "merge_line_entry u p = (case p of (f, ivs) \<Rightarrow> AList.update f (merge_line_intervals (dict_get u f [] @ ivs)) u)"

text \<open>
  Line coverage stated on sets: the share of the gold lines among the observed lines, \<open>1\<close>
  when the gold map names no line, \<open>0\<close> when the gold map is empty.
\<close>

definition line_coverage_sets :: "(string \<times> int) set \<Rightarrow> LineInterval list dict \<Rightarrow> real" where
  "line_coverage_sets observed gold_lines =
     (if gold_lines \<noteq> [] then
        (if 0 < card (dict_lines gold_lines)
         then real (card (observed \<inter> dict_lines gold_lines)) / real (card (dict_lines gold_lines))
         else 1)
      else 0)"

section \<open>Properties\<close>

subsection \<open>Coverage and precision\<close>

text \<open>
  C1. For non-negative sizes, coverage is \<open>inter / gold\<close> when \<open>gold > 0\<close> and \<open>1\<close> when
  \<open>gold = 0\<close>; precision is \<open>inter / pred\<close> when \<open>pred > 0\<close> and \<open>1\<close> when \<open>pred = 0\<close>.
  In particular \<open>coverage_precision 0 0 0 = (1, 1)\<close>, \<open>coverage_precision 5 0 0 = (1, 0)\<close>
  and \<open>coverage_precision 0 5 0 = (0, 1)\<close>.
\<close>

theorem coverage_precision_spec:
  assumes "0 \<le> pred_size" and "0 \<le> gold_size" and "0 \<le> inter_size"
  shows "fst (coverage_precision pred_size gold_size inter_size) =
           (if gold_size = 0 then 1 else inter_size / gold_size) \<and>
         snd (coverage_precision pred_size gold_size inter_size) =
           (if pred_size = 0 then 1 else inter_size / pred_size) \<and>
         coverage_precision 0 0 0 = (1, 1) \<and>
         coverage_precision 5 0 0 = (1, 0) \<and>
         coverage_precision 0 5 0 = (0, 1)"
  using assms by (auto simp: coverage_precision_def Let_def)

theorem coverage_precision_spec_witness:
  "(0::real) \<le> 4 \<and> (0::real) \<le> 8 \<and> (0::real) \<le> 2 \<and>
   fst (coverage_precision 4 8 2) = 1 / 4 \<and> snd (coverage_precision 4 8 2) = 1 / 2"
  using coverage_precision_spec [of 4 8 2] by simp

subsection \<open>Line-interval merge\<close>

lemma foldl_merge_step: "foldl merge_step (acc @ [l]) cs = acc @ coalesce l cs"
proof (induction cs arbitrary: acc l)
  case Nil then show ?case by simp
next
  case (Cons c cs)
  show ?case
  proof (cases "fst c \<le> snd l + 1")
    case True
    then have "merge_step (acc @ [l]) c = acc @ [(fst l, max (snd l) (snd c))]"
      by (simp add: merge_step_def)
    then show ?thesis using True Cons.IH [of acc] by simp
  next
    case False
    then have "merge_step (acc @ [l]) c = (acc @ [l]) @ [c]"
      by (simp add: merge_step_def)
    then show ?thesis using False Cons.IH [of "acc @ [l]" c] by simp
  qed
qed

lemma merge_line_intervals_coalesce:
  "merge_line_intervals xs = (if xs = [] then [] else coalesce (hd (sort xs)) (tl (sort xs)))"
  using foldl_merge_step [of "[]"] by (simp add: merge_line_intervals_def Let_def)

lemma coalesce_neq_Nil [simp]: "coalesce l cs \<noteq> []"
  by (induction cs arbitrary: l) auto

lemma coalesce_hd: "fst (hd (coalesce l cs)) = fst l \<and> snd l \<le> snd (hd (coalesce l cs))"
proof (induction cs arbitrary: l)
  case Nil then show ?case by simp
next
  case (Cons c cs)
  show ?case using Cons.IH [of "(fst l, max (snd l) (snd c))"] by auto
qed

lemma coalesce_successively:
  "successively (\<lambda>a b. snd a + 1 < fst b) (coalesce l cs)"
proof (induction cs arbitrary: l)
  case Nil then show ?case by simp
next
  case (Cons c cs)
  show ?case
  proof (cases "fst c \<le> snd l + 1")
    case True then show ?thesis using Cons.IH by simp
  next
    case False
    then show ?thesis using Cons.IH [of c] coalesce_hd [of c cs]
      by (cases "coalesce c cs") auto
  qed
qed

lemma coalesce_sorted:
  "sorted (l # cs) \<Longrightarrow> sorted (coalesce l cs)"
proof (induction cs arbitrary: l)
  case Nil then show ?case by simp
next
  case (Cons c cs)
  show ?case
  proof (cases "fst c \<le> snd l + 1")
    case True
    have "\<forall>d \<in> set cs. c \<le> d" and "l \<le> c" and "sorted cs"
      using Cons.prems by auto
    then have "\<forall>d \<in> set cs. (fst l, max (snd l) (snd c)) \<le> d"
      unfolding less_eq_prod_def by auto
    then have "sorted ((fst l, max (snd l) (snd c)) # cs)"
      using \<open>sorted cs\<close> by simp
    then show ?thesis using True Cons.IH by simp
  next
    case False
    have s: "sorted (coalesce c cs)" using Cons.prems Cons.IH [of c] by simp
    have "l \<le> c" using Cons.prems by simp
    then have "l \<le> hd (coalesce c cs)"
      using coalesce_hd [of c cs] unfolding less_eq_prod_def by auto
    then show ?thesis using False s
      by (cases "coalesce c cs") (auto intro: order_trans)
  qed
qed

lemma coalesce_id:
  "successively (\<lambda>a b. snd a + 1 < fst b) (l # cs) \<Longrightarrow> coalesce l cs = l # cs"
  by (induction cs arbitrary: l) auto

lemma coalesce_lines:
  "sorted (map fst (l # cs)) \<Longrightarrow> lines_of (coalesce l cs) = lines_of (l # cs)"
proof (induction cs arbitrary: l)
  case Nil then show ?case by simp
next
  case (Cons c cs)
  show ?case
  proof (cases "fst c \<le> snd l + 1")
    case True
    have "lines_of (coalesce (fst l, max (snd l) (snd c)) cs) = lines_of ((fst l, max (snd l) (snd c)) # cs)"
      using Cons.prems by (intro Cons.IH) auto
    moreover have "{fst l..max (snd l) (snd c)} = {fst l..snd l} \<union> {fst c..snd c}"
      using True Cons.prems by auto
    ultimately show ?thesis using True by (auto simp: lines_of_def split: prod.splits)
  next
    case False
    then show ?thesis using Cons.prems Cons.IH [of c] by (auto simp: lines_of_def)
  qed
qed

lemma merge_line_intervals_idem: "merge_line_intervals (merge_line_intervals x) = merge_line_intervals x"
proof (cases "x = []")
  case True then show ?thesis by (simp add: merge_line_intervals_def)
next
  case False
  define s where "s = sort x"
  have "length s = length x" by (simp add: s_def)
  then have sne: "s \<noteq> []" using False by auto
  then have shd: "s = hd s # tl s" by simp
  define m where "m = coalesce (hd s) (tl s)"
  have mm: "merge_line_intervals x = m" using False by (simp add: merge_line_intervals_coalesce m_def s_def)
  have "sorted s" by (simp add: s_def)
  then have "sorted (hd s # tl s)" using shd by simp
  then have sm: "sorted m" unfolding m_def by (rule coalesce_sorted)
  have mne: "m \<noteq> []" by (simp add: m_def)
  have gm: "successively (\<lambda>a b. snd a + 1 < fst b) (hd m # tl m)"
    using coalesce_successively [of "hd s" "tl s"] mne by (simp add: m_def)
  have "merge_line_intervals m = coalesce (hd m) (tl m)"
    using mne sm by (simp add: merge_line_intervals_coalesce sorted_sort_id)
  also have "\<dots> = hd m # tl m" using gm by (rule coalesce_id)
  also have "\<dots> = m" using mne by simp
  finally show ?thesis by (simp add: mm)
qed

lemma sorted_map_fst: "sorted (xs :: LineInterval list) \<Longrightarrow> sorted (map fst xs)"
proof (induction xs)
  case Nil then show ?case by simp
next
  case (Cons x xs)
  then have "\<forall>y \<in> set xs. x \<le> y" by simp
  then have "\<forall>y \<in> set xs. fst x \<le> fst y" unfolding less_eq_prod_def by auto
  then show ?case using Cons by simp
qed

lemma lines_of_sort: "lines_of (sort xs) = lines_of xs"
  by (simp add: lines_of_def)

lemma merge_line_intervals_lines: "lines_of (merge_line_intervals x) = lines_of x"
proof (cases "x = []")
  case True then show ?thesis by (simp add: merge_line_intervals_def)
next
  case False
  define s where "s = sort x"
  have "length s = length x" by (simp add: s_def)
  then have shd: "s = hd s # tl s" using False by (cases s) auto
  have "sorted (map fst s)" by (simp add: s_def sorted_map_fst)
  then have "sorted (map fst (hd s # tl s))" using shd by simp
  then have "lines_of (coalesce (hd s) (tl s)) = lines_of (hd s # tl s)"
    by (rule coalesce_lines)
  then show ?thesis
    using False shd lines_of_sort [of x] by (simp add: merge_line_intervals_coalesce s_def)
qed

lemma merge_line_intervals_sorted: "sorted (merge_line_intervals x)"
proof (cases "x = []")
  case True then show ?thesis by (simp add: merge_line_intervals_def)
next
  case False
  define s where "s = sort x"
  have "length s = length x" by (simp add: s_def)
  then have shd: "s = hd s # tl s" using False by (cases s) auto
  have "sorted s" by (simp add: s_def)
  then have "sorted (hd s # tl s)" using shd by simp
  then have "sorted (coalesce (hd s) (tl s))" by (rule coalesce_sorted)
  then show ?thesis using False by (simp add: merge_line_intervals_coalesce s_def)
qed

lemma merge_line_intervals_successively:
  "successively (\<lambda>a b. snd a + 1 < fst b) (merge_line_intervals x)"
  using coalesce_successively by (simp add: merge_line_intervals_coalesce)

lemma gaps_pairwise:
  "sorted (map fst xs) \<Longrightarrow> successively (\<lambda>a b. snd a + 1 < fst b) xs \<Longrightarrow>
   sorted_wrt (\<lambda>a b. snd a + 1 < (fst b :: int)) xs"
proof (induction xs)
  case Nil then show ?case by simp
next
  case (Cons a xs)
  show ?case
  proof (cases xs)
    case Nil then show ?thesis by simp
  next
    case (Cons b ys)
    have ab: "snd a + 1 < fst b" using Cons.prems(2) Cons by simp
    have "\<forall>d \<in> set xs. fst b \<le> fst d" using Cons.prems(1) Cons by auto
    then have "\<forall>d \<in> set xs. snd a + 1 < fst d" using ab by fastforce
    moreover have "sorted_wrt (\<lambda>a b. snd a + 1 < fst b) xs"
      using Cons.prems Cons.IH Cons by (simp add: successively_Cons)
    ultimately show ?thesis by simp
  qed
qed

lemma merge_line_intervals_gaps:
  "sorted_wrt (\<lambda>a b. snd a + 1 < fst b) (merge_line_intervals x)"
  by (rule gaps_pairwise)
     (simp_all add: sorted_map_fst merge_line_intervals_sorted merge_line_intervals_successively)

lemma merge_line_intervals_pair:
  "merge_line_intervals [a, b] =
     (if a \<le> b then (if fst b \<le> snd a + 1 then [(fst a, max (snd a) (snd b))] else [a, b])
      else (if fst a \<le> snd b + 1 then [(fst b, max (snd b) (snd a))] else [b, a]))"
  by (simp add: merge_line_intervals_def merge_step_def)

text \<open>
  C7. \<^verbatim>\<open>_merge_line_intervals\<close> is idempotent on every list of integer pairs. Its
  result is sorted, any two of its intervals are separated by at least one line (the later
  one starts after the end of the earlier one plus one, so they neither overlap nor touch),
  it covers exactly the lines of its argument, and two intervals \<open>a \<le> b\<close> are coalesced
  exactly when \<open>b\<close> starts at most one line after the end of \<open>a\<close>.
\<close>

theorem merge_line_intervals_spec:
  "merge_line_intervals (merge_line_intervals x) = merge_line_intervals x \<and>
   sorted (merge_line_intervals x) \<and>
   sorted_wrt (\<lambda>a b. snd a + 1 < fst b) (merge_line_intervals x) \<and>
   lines_of (merge_line_intervals x) = lines_of x \<and>
   (a \<le> b \<longrightarrow> merge_line_intervals [a, b] =
      (if fst b \<le> snd a + 1 then [(fst a, max (snd a) (snd b))] else [a, b]))"
  using merge_line_intervals_idem [of x] merge_line_intervals_sorted [of x]
    merge_line_intervals_gaps [of x] merge_line_intervals_lines [of x]
    merge_line_intervals_pair [of a b]
  by simp

theorem merge_line_intervals_spec_witness:
  "merge_line_intervals (merge_line_intervals [(5, 7), (1, 3), (4, 4), (10, 12)]) = [(1, 7), (10, 12)] \<and>
   merge_line_intervals [(5, 7), (1, 3), (4, 4), (10, 12)] = [(1, 7), (10, 12)] \<and>
   lines_of [(5, 7), (1, 3), (4, 4), (10, 12)] = lines_of [(1, 7), (10, 12)] \<and>
   merge_line_intervals [(1, 3), (4, 4)] = [(1, 4)] \<and>
   merge_line_intervals [(1, 3), (5, 6)] = [(1, 3), (5, 6)]"
proof -
  have e: "merge_line_intervals [(5, 7), (1, 3), (4, 4), (10, 12)] = [(1, 7), (10, 12)]"
    by (simp add: merge_line_intervals_def merge_step_def less_eq_prod_def)
  have le1: "((1::int), (3::int)) \<le> (4, 4)" and le2: "((1::int), (3::int)) \<le> (5, 6)"
    by (simp_all add: less_eq_prod_def)
  show ?thesis
    using merge_line_intervals_spec [of "[(5, 7), (1, 3), (4, 4), (10, 12)]" "(1, 3)" "(4, 4)"]
      merge_line_intervals_spec [of "[]" "(1, 3)" "(5, 6)"] le1 le2
    by (simp add: e)
qed

subsection \<open>Path resolver\<close>

lemma is_repo_file_nonempty: "is_repo_file fs repo_dir c \<Longrightarrow> c \<noteq> []"
  by (auto simp: is_repo_file_def)

lemma is_repo_file_fs:
  "is_repo_file fs repo_dir c \<Longrightarrow>
     stays_inside fs repo_dir (py_strip c) \<and> is_file fs repo_dir (py_strip c)"
  by (auto simp: is_repo_file_def Let_def split: if_splits)

lemma try_suffixes_empty_iff:
  "try_suffixes fs repo_dir xs = [] \<longleftrightarrow>
     (\<forall>i < length xs. \<not> is_repo_file fs repo_dir (py_join ''/'' (drop i xs)))"
proof (induction xs)
  case Nil then show ?case by simp
next
  case (Cons x xs)
  show ?case
  proof (cases "is_repo_file fs repo_dir (py_join ''/'' (x # xs))")
    case True
    then have "try_suffixes fs repo_dir (x # xs) \<noteq> []"
      using is_repo_file_nonempty by (auto simp: Let_def)
    moreover have "\<not> (\<forall>i < length (x # xs). \<not> is_repo_file fs repo_dir (py_join ''/'' (drop i (x # xs))))"
      using True by (auto intro: exI [of _ 0])
    ultimately show ?thesis by blast
  next
    case False
    have "(\<forall>i < length (x # xs). \<not> is_repo_file fs repo_dir (py_join ''/'' (drop i (x # xs)))) \<longleftrightarrow>
          (\<forall>i < length xs. \<not> is_repo_file fs repo_dir (py_join ''/'' (drop i xs)))"
      using False by (auto simp: less_Suc_eq_0_disj)
    then show ?thesis using False Cons.IH by (simp add: Let_def)
  qed
qed

lemma try_suffixes_found:
  "try_suffixes fs repo_dir xs \<noteq> [] \<Longrightarrow>
     \<exists>i < length xs. try_suffixes fs repo_dir xs = py_join ''/'' (drop i xs) \<and>
        is_repo_file fs repo_dir (py_join ''/'' (drop i xs)) \<and>
        (\<forall>j < i. \<not> is_repo_file fs repo_dir (py_join ''/'' (drop j xs)))"
proof (induction xs)
  case Nil then show ?case by simp
next
  case (Cons x xs)
  show ?case
  proof (cases "is_repo_file fs repo_dir (py_join ''/'' (x # xs))")
    case True
    then show ?thesis by (intro exI [of _ 0]) (simp add: Let_def)
  next
    case False
    then have "try_suffixes fs repo_dir xs \<noteq> []" using Cons.prems by (simp add: Let_def)
    then obtain i where i: "i < length xs"
      "try_suffixes fs repo_dir xs = py_join ''/'' (drop i xs)"
      "is_repo_file fs repo_dir (py_join ''/'' (drop i xs))"
      "\<forall>j < i. \<not> is_repo_file fs repo_dir (py_join ''/'' (drop j xs))"
      using Cons.IH by blast
    have "\<forall>j < Suc i. \<not> is_repo_file fs repo_dir (py_join ''/'' (drop j (x # xs)))"
      using False i(4) by (auto simp: less_Suc_eq_0_disj)
    then show ?thesis using False i(1,2,3)
      by (intro exI [of _ "Suc i"]) (simp add: Let_def)
  qed
qed

lemma resolve_repo_relpath_try:
  "resolve_repo_relpath fs repo_dir path =
     (if repo_dir = [] then [] else try_suffixes fs repo_dir (path_parts path))"
proof -
  have "path = [] \<Longrightarrow> path_parts path = []"
    by (simp add: path_parts_def normalize_path_def py_strip_def strip_where_def)
  moreover have "normalize_path path = [] \<Longrightarrow> path_parts path = []"
    by (simp add: path_parts_def)
  moreover have "map (\<lambda>c. if c = CHR 0x5C then CHR ''/'' else c)
                (strip_where (\<lambda>c. c \<in> {CHR 0x27, CHR 0x22}) (py_strip path)) = [] \<Longrightarrow> path_parts path = []"
    by (simp add: path_parts_def normalize_path_def)
  ultimately show ?thesis
    by (auto simp: resolve_repo_relpath_def Let_def)
qed

lemma resolve_repo_relpath_empty_iff:
  "resolve_repo_relpath fs repo_dir path = [] \<longleftrightarrow>
     (\<forall>i < length (path_parts path).
        \<not> is_repo_file fs repo_dir (py_join ''/'' (drop i (path_parts path))))"
proof (cases "repo_dir = []")
  case True
  then show ?thesis by (simp add: resolve_repo_relpath_try is_repo_file_def)
next
  case False
  then show ?thesis by (simp add: resolve_repo_relpath_try try_suffixes_empty_iff)
qed

lemma resolve_repo_relpath_found:
  assumes "resolve_repo_relpath fs repo_dir path \<noteq> []"
  shows "\<exists>i < length (path_parts path).
           resolve_repo_relpath fs repo_dir path = py_join ''/'' (drop i (path_parts path)) \<and>
           is_repo_file fs repo_dir (resolve_repo_relpath fs repo_dir path) \<and>
           (\<forall>j < i. \<not> is_repo_file fs repo_dir (py_join ''/'' (drop j (path_parts path))))"
proof -
  have ne: "repo_dir \<noteq> []" using assms by (auto simp: resolve_repo_relpath_try)
  then have r: "resolve_repo_relpath fs repo_dir path = try_suffixes fs repo_dir (path_parts path)"
    by (simp add: resolve_repo_relpath_try)
  then have "try_suffixes fs repo_dir (path_parts path) \<noteq> []" using assms by simp
  from try_suffixes_found [OF this] show ?thesis unfolding r by metis
qed

lemma path_parts_examples:
  "path_parts ''/testbed/src/a.py'' = [''testbed'', ''src'', ''a.py'']"
  "path_parts ''src/a.py'' = [''src'', ''a.py'']"
  "path_parts ''/etc/passwd'' = [''etc'', ''passwd'']"
  by (simp_all add: path_parts_def normalize_path_def py_strip_def strip_where_def py_isspace_def)

lemma py_split_nonempty: "py_split c s \<noteq> []"
  by (induction s) (auto split: list.splits)

lemma py_split_no_sep: "w \<in> set (py_split c s) \<Longrightarrow> c \<notin> set w"
proof (induction s arbitrary: w)
  case Nil then show ?case by simp
next
  case (Cons x xs)
  show ?case
  proof (cases "x = c")
    case True then show ?thesis using Cons by auto
  next
    case False
    obtain v vs where p: "py_split c xs = v # vs"
      using py_split_nonempty [of c xs] by (cases "py_split c xs") auto
    then have "w = x # v \<or> w \<in> set vs" using Cons.prems False by simp
    moreover have "c \<notin> set v" "\<forall>u \<in> set vs. c \<notin> set u" using Cons.IH p by simp_all
    ultimately show ?thesis using False by auto
  qed
qed

lemma path_parts_segments: "x \<in> set (path_parts path) \<Longrightarrow> x \<noteq> [] \<and> CHR ''/'' \<notin> set x"
  by (auto simp: path_parts_def dest: py_split_no_sep)

lemma path_parts_quoted:
  "path_parts ([CHR 0x20, CHR 0x22] @ ''./pkg'' @ [CHR 0x5C] @ ''mod.py'' @ [CHR 0x22, CHR 0x0A]) = [''pkg'', ''mod.py'']"
  by (simp add: path_parts_def normalize_path_def py_strip_def strip_where_def py_isspace_def)


lemma example_fs_files:
  "is_repo_file example_fs ''/repo'' ''src/a.py''"
  "\<not> is_repo_file example_fs ''/repo'' ''testbed/src/a.py''"
  "\<not> is_repo_file example_fs ''/repo'' ''etc/passwd''"
  "is_repo_file example_fs ''/repo'' ''passwd''"
  by (simp_all add: is_repo_file_def example_fs_def py_strip_def strip_where_def py_isspace_def)

lemma example_fs_plain_files:
  "is_repo_file example_fs_plain ''/repo'' ''src/a.py''"
  "\<not> is_repo_file example_fs_plain ''/repo'' ''testbed/src/a.py''"
  "\<not> is_repo_file example_fs_plain ''/repo'' ''etc/passwd''"
  "\<not> is_repo_file example_fs_plain ''/repo'' ''passwd''"
  by (simp_all add: is_repo_file_def example_fs_plain_def py_strip_def strip_where_def py_isspace_def)



subsection \<open>Definitions touched by spans\<close>

lemma defs_in_spans_iff:
  "(f', kind, s, e) \<in> defs_in_spans f all_defs ivs \<longleftrightarrow>
     f' = f \<and> (kind, s, e) \<in> set all_defs \<and> (\<exists>(a, b) \<in> set ivs. \<not> (e < a \<or> s > b))"
  by (auto simp: defs_in_spans_def overlaps_def list_ex_iff)

lemma touched_Nil: "touched env [] = {}"
  by (simp add: touched_def)

lemma touched_Cons_skip:
  "\<not> path_exists env f \<Longrightarrow> touched env ((f, ivs) # rest) = touched env rest"
  by (auto simp: touched_def)

lemma touched_Cons_defs:
  "path_exists env f \<Longrightarrow> extract_defs env f = Inr all_defs \<Longrightarrow>
   touched env ((f, ivs) # rest) = defs_in_spans f all_defs ivs \<union> touched env rest"
  by (auto simp: touched_def defs_in_spans_iff)

lemma spans_loop_result:
  "spans_loop env spans acc = Inr result \<Longrightarrow> result = acc \<union> touched env spans"
proof (induction spans arbitrary: acc)
  case Nil then show ?case by (simp add: touched_Nil)
next
  case (Cons p spans)
  obtain f ivs where p: "p = (f, ivs)" by (cases p)
  show ?case
  proof (cases "path_exists env f")
    case False
    then show ?thesis using Cons p by (simp add: touched_Cons_skip)
  next
    case True
    show ?thesis
    proof (cases "extract_defs env f")
      case (Inl e) then show ?thesis using Cons.prems p True by simp
    next
      case (Inr all_defs)
      then have "spans_loop env spans (acc \<union> defs_in_spans f all_defs ivs) = Inr result"
        using Cons.prems p True by simp
      from Cons.IH [OF this] show ?thesis
        using True Inr p by (auto simp: touched_Cons_defs)
    qed
  qed
qed

lemma spans_loop_total:
  "(\<forall>(f, ivs) \<in> set spans. path_exists env f \<longrightarrow> (\<exists>ds. extract_defs env f = Inr ds)) \<Longrightarrow>
   \<exists>result. spans_loop env spans acc = Inr result"
proof (induction spans arbitrary: acc)
  case Nil then show ?case by simp
next
  case (Cons p spans)
  obtain f ivs where p: "p = (f, ivs)" by (cases p)
  show ?case
  proof (cases "path_exists env f")
    case False then show ?thesis using Cons p by simp
  next
    case True
    then obtain ds where "extract_defs env f = Inr ds" using Cons.prems p by auto
    then show ?thesis using Cons True p by simp
  qed
qed

lemma overlaps_touch:
  "s \<le> e \<Longrightarrow> a \<le> b \<Longrightarrow> overlaps (kind, s, e) (a, b) \<longleftrightarrow> {s..e} \<inter> {a..b} \<noteq> {}"
proof -
  assume v: "s \<le> e" "a \<le> b"
  have "{s..e} \<inter> {a..b} = {max s a..min e b}" by auto
  then show ?thesis using v by (auto simp: overlaps_def)
qed

lemma single_span:
  assumes "path_exists env f" "extract_defs env f = Inr all_defs"
  shows "extract_def_set_in_spans env [(f, [(a, b)])] =
           Inr {(f, kind, s, e) | kind s e. (kind, s, e) \<in> set all_defs \<and> overlaps (kind, s, e) (a, b)}"
  using assms by (auto simp: extract_def_set_in_spans_def defs_in_spans_def)

lemma example_file_lang: "file_lang ''a.py'' = Some ''python''"
  by (simp add: file_lang_def LANG_MAP_def DEF_NODES_def splitext_ext_def py_lower_def)

lemma example_extract_defs:
  "extract_defs example_ts ''a.py'' =
     Inr [(''class_definition'', 0, 55), (''function_definition'', 10, 50),
          (''function_definition'', 60, 90)]"
  by (simp add: extract_defs_def example_file_lang example_ts_def example_tree_def
      get_parser_for_lang_def available_def dict_get_def DEF_NODES_def sublist_code prefix_code)

lemma example_path_exists: "path_exists example_ts ''a.py''"
  by (simp add: example_ts_def)




subsection \<open>Edit localization\<close>

lemma set_edit_lines: "set (edit_lines edits) = deleted_lines edits"
proof (rule set_eqI)
  fix x :: "string \<times> int"
  obtain f l where x: "x = (f, l)" by (cases x)
  have "(f, l) \<in> set (edit_lines edits) \<longleftrightarrow>
        (\<exists>ivs. (f, ivs) \<in> set edits \<and> (\<exists>(s, e) \<in> set ivs. s \<le> l \<and> l \<le> e))"
    unfolding edit_lines_def by fastforce
  then show "x \<in> set (edit_lines edits) \<longleftrightarrow> x \<in> deleted_lines edits"
    by (simp add: x deleted_lines_def)
qed

lemma in_gold_iff:
  "in_gold gold (f, l) \<longleftrightarrow> (\<exists>(gs, ge) \<in> set (dict_get gold f []). gs \<le> l \<and> l \<le> ge)"
  by (auto simp: in_gold_def list_ex_iff)

lemma set_filter_in_gold:
  "set (filter (in_gold gold) (edit_lines edits)) = deleted_lines_in_gold edits gold"
  by (fastforce simp: set_edit_lines deleted_lines_in_gold_def in_gold_iff)

lemma edit_lines_single: "edit_lines [(f, [(s, e)])] = map (\<lambda>l. (f, l)) [s..e]"
  by (simp add: edit_lines_def)

lemma filter_all_id: "(\<forall>x \<in> set xs. P x) \<Longrightarrow> filter P xs = xs"
  by (induction xs) auto

lemma filter_none_Nil: "(\<forall>x \<in> set xs. \<not> P x) \<Longrightarrow> filter P xs = []"
  by (induction xs) auto

lemma editloc_some:
  assumes "patch = (if model_patch = [] then gold_patch else model_patch)" and "patch \<noteq> []"
  shows "editloc_metrics pdl model_patch gold_patch gold =
     Some \<lparr> el_recall = (if length (edit_lines (pdl patch True)) = 0 then 0
                          else real (length (filter (in_gold gold) (edit_lines (pdl patch True)))) /
                               real (length (edit_lines (pdl patch True)))),
             el_precision = (if length (edit_lines (pdl patch True)) = 0 then 0
                          else real (length (filter (in_gold gold) (edit_lines (pdl patch True)))) /
                               real (length (edit_lines (pdl patch True)))),
             el_intersection = int (length (filter (in_gold gold) (edit_lines (pdl patch True)))),
             el_gold_size = (\<Sum>intervals \<leftarrow> map snd gold. \<Sum>(start, end) \<leftarrow> intervals. end - start + 1),
             el_pred_size = int (length (edit_lines (pdl patch True))) \<rparr>"
  using assms by (auto simp: editloc_metrics_def Let_def)

lemma edit_lines_inside: "(10, 20) \<in> set (dict_get gold f []) \<Longrightarrow> filter (in_gold gold) (edit_lines [(f, [(12, 14)])]) = edit_lines [(f, [(12, 14)])]"
  by (rule filter_all_id) (auto simp: edit_lines_single in_gold_iff intro!: bexI [of _ "(10, 20)"])

lemma edit_lines_lengths: "length (edit_lines [(f, [(12, 14)])]) = 3" "length (edit_lines [(f, [(30, 31)])]) = 2"
  by (simp_all add: edit_lines_single)

lemma edit_lines_outside: "\<forall>(gs, ge) \<in> set (dict_get gold f []). ge < 30 \<or> 31 < gs \<Longrightarrow> filter (in_gold gold) (edit_lines [(f, [(30, 31)])]) = []"
  by (rule filter_none_Nil) (auto simp: edit_lines_single in_gold_iff)

text \<open>
  C6. When the patch of an instance (the model's, or the gold patch when the model's is
  empty) is not empty, the row has an EditLoc entry. It is computed from the deleted lines
  alone, the result of \<^verbatim>\<open>parse_diff_lines\<close> with \<^verbatim>\<open>deletions_only=True\<close>; recall and
  precision are equal, both the number of deleted lines inside a gold range of their file
  over the number of deleted lines, and both \<open>0\<close> when no line is deleted. The counts are
  those of the listed lines, which are the cardinalities of the sets of deleted lines when
  no line is listed twice. Deleting lines 12 to 14 inside the gold range 10 to 20 gives
  \<open>1\<close> and \<open>1\<close>; deleting lines 30 and 31 outside every gold range of the file gives
  \<open>0\<close> and \<open>0\<close>.
\<close>

theorem editloc_spec:
  assumes "patch = (if model_patch = [] then gold_patch else model_patch)" and "patch \<noteq> []"
  shows "\<exists>el. editloc_metrics pdl model_patch gold_patch gold = Some el \<and>
     el_recall el = el_precision el \<and>
     el_pred_size el = int (length (edit_lines (pdl patch True))) \<and>
     el_intersection el = int (length (filter (in_gold gold) (edit_lines (pdl patch True)))) \<and>
     el_recall el = (if el_pred_size el = 0 then 0
                     else real_of_int (el_intersection el) / real_of_int (el_pred_size el)) \<and>
     (distinct (edit_lines (pdl patch True)) \<longrightarrow>
        el_pred_size el = int (card (deleted_lines (pdl patch True))) \<and>
        el_intersection el = int (card (deleted_lines_in_gold (pdl patch True) gold))) \<and>
     (pdl patch True = [(f, [(12, 14)])] \<and> (10, 20) \<in> set (dict_get gold f []) \<longrightarrow>
        el_recall el = 1 \<and> el_precision el = 1) \<and>
     (pdl patch True = [(f, [(30, 31)])] \<and>
      (\<forall>(gs, ge) \<in> set (dict_get gold f []). ge < 30 \<or> 31 < gs) \<longrightarrow>
        el_recall el = 0 \<and> el_precision el = 0)"
proof -
  let ?xs = "edit_lines (pdl patch True)"
  let ?hs = "filter (in_gold gold) ?xs"
  define el where "el = \<lparr> el_recall = (if length ?xs = 0 then 0 else real (length ?hs) / real (length ?xs)),
             el_precision = (if length ?xs = 0 then 0 else real (length ?hs) / real (length ?xs)),
             el_intersection = int (length ?hs),
             el_gold_size = (\<Sum>intervals \<leftarrow> map snd gold. \<Sum>(start, end) \<leftarrow> intervals. end - start + 1),
             el_pred_size = int (length ?xs) \<rparr>"
  have some: "editloc_metrics pdl model_patch gold_patch gold = Some el"
    unfolding el_def using assms by (rule editloc_some)
  have eq: "el_recall el = el_precision el" by (simp add: el_def)
  have ps: "el_pred_size el = int (length ?xs)" by (simp add: el_def)
  have hs: "el_intersection el = int (length ?hs)" by (simp add: el_def)
  have ratio: "el_recall el = (if el_pred_size el = 0 then 0
                     else real_of_int (el_intersection el) / real_of_int (el_pred_size el))"
    by (simp add: el_def)
  have card: "distinct ?xs \<longrightarrow>
        el_pred_size el = int (card (deleted_lines (pdl patch True))) \<and>
        el_intersection el = int (card (deleted_lines_in_gold (pdl patch True) gold))"
  proof
    assume d: "distinct ?xs"
    then have "length ?xs = card (set ?xs)" by (rule distinct_card [symmetric])
    moreover have "distinct ?hs" using d by simp
    then have "length ?hs = card (set ?hs)" by (rule distinct_card [symmetric])
    ultimately show "el_pred_size el = int (card (deleted_lines (pdl patch True))) \<and>
        el_intersection el = int (card (deleted_lines_in_gold (pdl patch True) gold))"
      unfolding ps hs set_filter_in_gold set_edit_lines by simp
  qed
  have inside: "pdl patch True = [(f, [(12, 14)])] \<and> (10, 20) \<in> set (dict_get gold f []) \<longrightarrow>
        el_recall el = 1 \<and> el_precision el = 1"
  proof
    assume a: "pdl patch True = [(f, [(12, 14)])] \<and> (10, 20) \<in> set (dict_get gold f [])"
    then have "?hs = ?xs" using edit_lines_inside [of gold f] by simp
    then show "el_recall el = 1 \<and> el_precision el = 1"
      using a by (simp add: el_def edit_lines_lengths)
  qed
  have outside: "pdl patch True = [(f, [(30, 31)])] \<and>
      (\<forall>(gs, ge) \<in> set (dict_get gold f []). ge < 30 \<or> 31 < gs) \<longrightarrow>
        el_recall el = 0 \<and> el_precision el = 0"
  proof
    assume a: "pdl patch True = [(f, [(30, 31)])] \<and>
      (\<forall>(gs, ge) \<in> set (dict_get gold f []). ge < 30 \<or> 31 < gs)"
    then have "?hs = []" using edit_lines_outside [of gold f] by simp
    then show "el_recall el = 0 \<and> el_precision el = 0"
      by (simp add: el_def)
  qed
  show ?thesis
    using some eq ps hs ratio card inside outside by blast
qed

theorem editloc_spec_witness:
  "''-x'' = (if ''-x'' = [] then [] else ''-x'') \<and> ''-x'' \<noteq> [] \<and>
   editloc_metrics (\<lambda>p d. [(''f.py'', [(12, 14)])]) ''-x'' [] [(''f.py'', [(10, 20)])] =
     Some \<lparr> el_recall = 1, el_precision = 1, el_intersection = 3, el_gold_size = 11,
            el_pred_size = 3 \<rparr> \<and>
   (\<exists>el. editloc_metrics (\<lambda>p d. [(''f.py'', [(30, 31)])]) ''-x'' [] [(''f.py'', [(10, 20)])] =
           Some el \<and> el_recall el = 0 \<and> el_precision el = 0 \<and> el_pred_size el = 2)"
proof -
  have e: "editloc_metrics (\<lambda>p d. [(''f.py'', [(12, 14)])]) ''-x'' [] [(''f.py'', [(10, 20)])] =
     Some \<lparr> el_recall = 1, el_precision = 1, el_intersection = 3, el_gold_size = 11,
            el_pred_size = 3 \<rparr>"
    by (simp add: editloc_metrics_def Let_def edit_lines_single in_gold_def dict_get_def)
  have g: "\<forall>(gs, ge) \<in> set (dict_get [(''f.py'', [(10::int, 20::int)])] ''f.py'' []).
             ge < 30 \<or> 31 < gs"
    by (simp add: dict_get_def)
  have "\<exists>el. editloc_metrics (\<lambda>p d. [(''f.py'', [(30, 31)])]) ''-x'' [] [(''f.py'', [(10, 20)])] =
           Some el \<and> el_recall el = 0 \<and> el_precision el = 0 \<and> el_pred_size el = 2"
    using editloc_spec [of "''-x''" "''-x''" "[]" "\<lambda>p d. [(''f.py'', [(30, 31)])]"
        "[(''f.py'', [(10, 20)])]" "''f.py''"] g
    by (auto simp: edit_lines_lengths)
  then show ?thesis
    using editloc_spec [of "''-x''" "''-x''" "[]" "\<lambda>p d. [(''f.py'', [(12, 14)])]"
        "[(''f.py'', [(10, 20)])]" "''f.py''"] e
    by simp
qed

subsection \<open>Aggregation\<close>

text \<open>
  C8. The aggregate EditLoc entry is \<^verbatim>\<open>coverage_precision\<close> of the summed sizes: its
  recall divides the summed hit counts by the summed gold sizes, not by the summed
  deleted-line counts. For the single row of a diff that deletes lines 12 to 14 inside the
  gold range 10 to 20 (recall and precision \<open>1\<close>, 3 hits, 11 gold lines, 3 deleted lines)
  the aggregate recall is \<open>3 / 11\<close>, the aggregate precision \<open>1\<close>.
\<close>

theorem aggregate_results_editloc_divergence:
  "agg_editloc (aggregate_results
     [\<lparr> has_error = False, r_final = [], r_auc_coverage = [], r_redundancy = [],
        r_editloc = Some \<lparr> el_recall = 1, el_precision = 1, el_intersection = 3,
                           el_gold_size = 11, el_pred_size = 3 \<rparr> \<rparr>]) = Some (3 / 11, 1)"
  by (simp add: aggregate_results_def coverage_precision_def Let_def)

subsection \<open>Trajectory metrics\<close>

lemma traj_loop_snoc:
  "traj_loop env gf gs gsp gl s t (xs @ [x]) =
     (case traj_loop env gf gs gsp gl s t xs of
        Inl e \<Rightarrow> Inl e
      | Inr s' \<Rightarrow> traj_step env gf gs gsp gl s' (t + length xs) x)"
proof (induction xs arbitrary: s t)
  case Nil
  show ?case by (simp split: sum.splits)
next
  case (Cons y ys)
  show ?case by (simp add: Cons.IH split: sum.splits)
qed

lemma cum_snoc:
  "cum_files (xs @ [x]) = cum_files xs \<union> set (st_files x)"
  "cum_symbols env (xs @ [x]) = cum_symbols env xs \<union> step_syms env x"
  "cum_spans env (xs @ [x]) = merge_spans_into env (cum_spans env xs) (step_to_byte_spans env x)"
  "cum_lines (xs @ [x]) = merge_lines_into (cum_lines xs) (step_to_line_intervals x)"
  by (auto simp: cum_files_def cum_symbols_def cum_spans_def cum_lines_def)

lemma cum_Nil:
  "cum_files [] = {}" "cum_symbols env [] = {}" "cum_spans env [] = []" "cum_lines [] = []"
  by (simp_all add: cum_files_def cum_symbols_def cum_spans_def cum_lines_def)

lemma traj_loop_result:
  "traj_loop env gf gs gsp gl initial_state 0 steps = Inr s \<Longrightarrow>
     union_files s = cum_files steps \<and>
     union_symbols s = cum_symbols env steps \<and>
     union_spans s = cum_spans env steps \<and>
     union_lines s = cum_lines steps \<and>
     sum_files s = (\<Sum>x \<leftarrow> steps. int (card (set (st_files x)))) \<and>
     sum_symbols s = (\<Sum>x \<leftarrow> steps. int (card (step_syms env x))) \<and>
     sum_spans s = (\<Sum>x \<leftarrow> steps. span_total_bytes env (step_to_byte_spans env x)) \<and>
     sum_lines s = (\<Sum>x \<leftarrow> steps. line_total_lines (step_to_line_intervals x)) \<and>
     per_step_metrics s = map (step_entry env gf gs gsp gl steps) [0..<length steps]"
proof (induction steps arbitrary: s rule: rev_induct)
  case Nil
  then show ?case by (auto simp: initial_state_def cum_Nil)
next
  case (snoc x xs)
  from snoc.prems obtain s0 where s0: "traj_loop env gf gs gsp gl initial_state 0 xs = Inr s0"
    and st: "traj_step env gf gs gsp gl s0 (length xs) x = Inr s"
    by (auto simp: traj_loop_snoc split: sum.splits)
  note ih = snoc.IH [OF s0]
  from st obtain syms where sy: "step_symbols env x = Inr syms"
    by (auto simp: traj_step_def Let_def split: sum.splits)
  then have ss: "step_syms env x = syms" by (simp add: step_syms_def)
  have s_eq: "s = \<lparr> union_files = union_files s0 \<union> set (st_files x),
                    union_symbols = union_symbols s0 \<union> syms,
                    union_spans = merge_spans_into env (union_spans s0) (step_to_byte_spans env x),
                    union_lines = merge_lines_into (union_lines s0) (step_to_line_intervals x),
                    sum_files = sum_files s0 + int (card (set (st_files x))),
                    sum_symbols = sum_symbols s0 + int (card syms),
                    sum_spans = sum_spans s0 + span_total_bytes env (step_to_byte_spans env x),
                    sum_lines = sum_lines s0 + line_total_lines (step_to_line_intervals x),
                    per_step_metrics = per_step_metrics s0 @
                      [\<lparr> sm_step = length xs + 1,
                         sm_coverage = coverage_now env gf gs gsp gl
                            (union_files s0 \<union> set (st_files x)) (union_symbols s0 \<union> syms)
                            (merge_spans_into env (union_spans s0) (step_to_byte_spans env x))
                            (merge_lines_into (union_lines s0) (step_to_line_intervals x)) \<rparr>] \<rparr>"
    using st sy by (simp add: traj_step_def Let_def)
  have old: "map (step_entry env gf gs gsp gl (xs @ [x])) [0..<length xs] =
             map (step_entry env gf gs gsp gl xs) [0..<length xs]"
    by (simp add: step_entry_def)
  have new: "step_entry env gf gs gsp gl (xs @ [x]) (length xs) =
      \<lparr> sm_step = length xs + 1,
        sm_coverage = coverage_now env gf gs gsp gl
                            (union_files s0 \<union> set (st_files x)) (union_symbols s0 \<union> syms)
                            (merge_spans_into env (union_spans s0) (step_to_byte_spans env x))
                            (merge_lines_into (union_lines s0) (step_to_line_intervals x)) \<rparr>"
    using ih by (simp add: step_entry_def cum_coverage_def cum_snoc ss)
  show ?case
    unfolding s_eq by (simp add: cum_snoc ss ih old new)
qed

lemma traj_loop_total:
  "(\<forall>x \<in> set steps. \<exists>r. step_symbols env x = Inr r) \<Longrightarrow>
   \<exists>s'. traj_loop env gf gs gsp gl s t steps = Inr s'"
proof (induction steps arbitrary: s t)
  case Nil then show ?case by simp
next
  case (Cons x xs)
  then obtain r where "step_symbols env x = Inr r" by auto
  then obtain s1 where "traj_step env gf gs gsp gl s t x = Inr s1"
    by (simp add: traj_step_def Let_def)
  then show ?case using Cons by simp
qed


lemma sum_list_entries:
  "(\<Sum>e \<leftarrow> map (step_entry env gf gs gsp gl steps) [0..<n]. g (sm_coverage e)) =
   (\<Sum>t<n. g (cum_coverage env gf gs gsp gl (take (t + 1) steps)))"
proof -
  have "(\<Sum>e \<leftarrow> map (step_entry env gf gs gsp gl steps) [0..<n]. g (sm_coverage e)) =
        sum_list (map (\<lambda>t. g (cum_coverage env gf gs gsp gl (take (t + 1) steps))) [0..<n])"
    by (simp add: step_entry_def comp_def)
  also have "\<dots> = (\<Sum>t \<in> set [0..<n]. g (cum_coverage env gf gs gsp gl (take (t + 1) steps)))"
    by (rule interv_sum_list_conv_sum_set_nat)
  also have "set [0..<n] = {..<n}" by auto
  finally show ?thesis .
qed

lemma compute_trajectory_metrics_result:
  assumes "steps \<noteq> []"
    and "compute_trajectory_metrics env steps gf gs gsp gl = Inr m"
  shows "\<exists>s. traj_loop env gf gs gsp (unwrap_gold_lines gl) initial_state 0 steps = Inr s \<and>
     tm_steps m = per_step_metrics s \<and>
     c_file (auc_coverage m) = (\<Sum>e \<leftarrow> per_step_metrics s. c_file (sm_coverage e)) / real (length steps) \<and>
     c_symbol (auc_coverage m) = (\<Sum>e \<leftarrow> per_step_metrics s. c_symbol (sm_coverage e)) / real (length steps) \<and>
     c_span (auc_coverage m) = (\<Sum>e \<leftarrow> per_step_metrics s. c_span (sm_coverage e)) / real (length steps) \<and>
     c_line (auc_coverage m) = (\<Sum>e \<leftarrow> per_step_metrics s. c_line (sm_coverage e)) / real (length steps) \<and>
     c_file (redundancy m) = (if sum_files s > 0
          then 1 - real (card (union_files s)) / real_of_int (sum_files s) else 0) \<and>
     c_symbol (redundancy m) = (if sum_symbols s > 0
          then 1 - real (card (union_symbols s)) / real_of_int (sum_symbols s) else 0) \<and>
     c_span (redundancy m) = (if sum_spans s > 0
          then 1 - real_of_int (span_total_bytes env (union_spans s)) / real_of_int (sum_spans s) else 0) \<and>
     c_line (redundancy m) = (if sum_lines s > 0
          then 1 - real_of_int (line_total_lines (union_lines s)) / real_of_int (sum_lines s) else 0)"
proof (cases "traj_loop env gf gs gsp (unwrap_gold_lines gl) initial_state 0 steps")
  case (Inl e)
  then show ?thesis using assms
    by (simp add: compute_trajectory_metrics_def Let_def unwrap_gold_lines_def)
next
  case (Inr s)
  then have "m = \<lparr> tm_steps = per_step_metrics s,
       auc_coverage = \<lparr> c_file = (\<Sum>e \<leftarrow> per_step_metrics s. c_file (sm_coverage e)) / real (length steps),
                        c_symbol = (\<Sum>e \<leftarrow> per_step_metrics s. c_symbol (sm_coverage e)) / real (length steps),
                        c_span = (\<Sum>e \<leftarrow> per_step_metrics s. c_span (sm_coverage e)) / real (length steps),
                        c_line = (\<Sum>e \<leftarrow> per_step_metrics s. c_line (sm_coverage e)) / real (length steps) \<rparr>,
       redundancy = \<lparr> c_file = (if sum_files s > 0
                          then 1 - real (card (union_files s)) / real_of_int (sum_files s) else 0),
                      c_symbol = (if sum_symbols s > 0
                          then 1 - real (card (union_symbols s)) / real_of_int (sum_symbols s) else 0),
                      c_span = (if sum_spans s > 0
                          then 1 - real_of_int (span_total_bytes env (union_spans s)) / real_of_int (sum_spans s) else 0),
                      c_line = (if sum_lines s > 0
                          then 1 - real_of_int (line_total_lines (union_lines s)) / real_of_int (sum_lines s) else 0) \<rparr> \<rparr>"
    using assms by (simp add: compute_trajectory_metrics_def Let_def unwrap_gold_lines_def)
  then show ?thesis using Inr by simp
qed

lemma compute_trajectory_metrics_total:
  assumes "\<forall>x \<in> set steps. \<exists>r. step_symbols env x = Inr r"
  shows "\<exists>m. compute_trajectory_metrics env steps gf gs gsp gl = Inr m"
proof (cases "steps = []")
  case True then show ?thesis by (simp add: compute_trajectory_metrics_def)
next
  case False
  obtain s where "traj_loop env gf gs gsp (unwrap_gold_lines gl) initial_state 0 steps = Inr s"
    using traj_loop_total [OF assms] by blast
  then show ?thesis using False
    by (simp add: compute_trajectory_metrics_def Let_def unwrap_gold_lines_def)
qed

lemma trajectory_steps:
  assumes "steps \<noteq> []"
    and "compute_trajectory_metrics env steps gf gs gsp gl = Inr m"
  shows "tm_steps m = map (step_entry env gf gs gsp (unwrap_gold_lines gl) steps) [0..<length steps]"
  using compute_trajectory_metrics_result [OF assms] traj_loop_result by fastforce

lemma trajectory_auc:
  assumes "steps \<noteq> []"
    and "compute_trajectory_metrics env steps gf gs gsp gl = Inr m"
  shows "c_file (auc_coverage m) =
           (\<Sum>t<length steps. c_file (cum_coverage env gf gs gsp (unwrap_gold_lines gl) (take (t + 1) steps))) / real (length steps)"
    and "c_symbol (auc_coverage m) =
           (\<Sum>t<length steps. c_symbol (cum_coverage env gf gs gsp (unwrap_gold_lines gl) (take (t + 1) steps))) / real (length steps)"
    and "c_span (auc_coverage m) =
           (\<Sum>t<length steps. c_span (cum_coverage env gf gs gsp (unwrap_gold_lines gl) (take (t + 1) steps))) / real (length steps)"
    and "c_line (auc_coverage m) =
           (\<Sum>t<length steps. c_line (cum_coverage env gf gs gsp (unwrap_gold_lines gl) (take (t + 1) steps))) / real (length steps)"
proof -
  obtain s where s: "traj_loop env gf gs gsp (unwrap_gold_lines gl) initial_state 0 steps = Inr s"
    and a: "c_file (auc_coverage m) = (\<Sum>e \<leftarrow> per_step_metrics s. c_file (sm_coverage e)) / real (length steps)"
     "c_symbol (auc_coverage m) = (\<Sum>e \<leftarrow> per_step_metrics s. c_symbol (sm_coverage e)) / real (length steps)"
     "c_span (auc_coverage m) = (\<Sum>e \<leftarrow> per_step_metrics s. c_span (sm_coverage e)) / real (length steps)"
     "c_line (auc_coverage m) = (\<Sum>e \<leftarrow> per_step_metrics s. c_line (sm_coverage e)) / real (length steps)"
    using compute_trajectory_metrics_result [OF assms] by blast
  have p: "per_step_metrics s = map (step_entry env gf gs gsp (unwrap_gold_lines gl) steps) [0..<length steps]"
    using traj_loop_result [OF s] by simp
  show "c_file (auc_coverage m) =
           (\<Sum>t<length steps. c_file (cum_coverage env gf gs gsp (unwrap_gold_lines gl) (take (t + 1) steps))) / real (length steps)"
    unfolding a p by (simp only: sum_list_entries)
  show "c_symbol (auc_coverage m) =
           (\<Sum>t<length steps. c_symbol (cum_coverage env gf gs gsp (unwrap_gold_lines gl) (take (t + 1) steps))) / real (length steps)"
    unfolding a p by (simp only: sum_list_entries)
  show "c_span (auc_coverage m) =
           (\<Sum>t<length steps. c_span (cum_coverage env gf gs gsp (unwrap_gold_lines gl) (take (t + 1) steps))) / real (length steps)"
    unfolding a p by (simp only: sum_list_entries)
  show "c_line (auc_coverage m) =
           (\<Sum>t<length steps. c_line (cum_coverage env gf gs gsp (unwrap_gold_lines gl) (take (t + 1) steps))) / real (length steps)"
    unfolding a p by (simp only: sum_list_entries)
qed

lemma trajectory_redundancy:
  assumes "steps \<noteq> []"
    and "compute_trajectory_metrics env steps gf gs gsp gl = Inr m"
  shows "c_file (redundancy m) =
           (if (\<Sum>x \<leftarrow> steps. int (card (set (st_files x)))) > 0
            then 1 - real (card (cum_files steps)) / real_of_int (\<Sum>x \<leftarrow> steps. int (card (set (st_files x))))
            else 0)"
    and "c_symbol (redundancy m) =
           (if (\<Sum>x \<leftarrow> steps. int (card (step_syms env x))) > 0
            then 1 - real (card (cum_symbols env steps)) / real_of_int (\<Sum>x \<leftarrow> steps. int (card (step_syms env x)))
            else 0)"
    and "c_span (redundancy m) =
           (if (\<Sum>x \<leftarrow> steps. span_total_bytes env (step_to_byte_spans env x)) > 0
            then 1 - real_of_int (span_total_bytes env (cum_spans env steps)) /
                     real_of_int (\<Sum>x \<leftarrow> steps. span_total_bytes env (step_to_byte_spans env x))
            else 0)"
    and "c_line (redundancy m) =
           (if (\<Sum>x \<leftarrow> steps. line_total_lines (step_to_line_intervals x)) > 0
            then 1 - real_of_int (line_total_lines (cum_lines steps)) /
                     real_of_int (\<Sum>x \<leftarrow> steps. line_total_lines (step_to_line_intervals x))
            else 0)"
proof -
  obtain s where s: "traj_loop env gf gs gsp (unwrap_gold_lines gl) initial_state 0 steps = Inr s"
    and r: "c_file (redundancy m) = (if sum_files s > 0
          then 1 - real (card (union_files s)) / real_of_int (sum_files s) else 0)"
     "c_symbol (redundancy m) = (if sum_symbols s > 0
          then 1 - real (card (union_symbols s)) / real_of_int (sum_symbols s) else 0)"
     "c_span (redundancy m) = (if sum_spans s > 0
          then 1 - real_of_int (span_total_bytes env (union_spans s)) / real_of_int (sum_spans s) else 0)"
     "c_line (redundancy m) = (if sum_lines s > 0
          then 1 - real_of_int (line_total_lines (union_lines s)) / real_of_int (sum_lines s) else 0)"
    using compute_trajectory_metrics_result [OF assms] by blast
  note u = traj_loop_result [OF s]
  show "c_file (redundancy m) =
           (if (\<Sum>x \<leftarrow> steps. int (card (set (st_files x)))) > 0
            then 1 - real (card (cum_files steps)) / real_of_int (\<Sum>x \<leftarrow> steps. int (card (set (st_files x))))
            else 0)"
    using r(1) u by simp
  show "c_symbol (redundancy m) =
           (if (\<Sum>x \<leftarrow> steps. int (card (step_syms env x))) > 0
            then 1 - real (card (cum_symbols env steps)) / real_of_int (\<Sum>x \<leftarrow> steps. int (card (step_syms env x)))
            else 0)"
    using r(2) u by simp
  show "c_span (redundancy m) =
           (if (\<Sum>x \<leftarrow> steps. span_total_bytes env (step_to_byte_spans env x)) > 0
            then 1 - real_of_int (span_total_bytes env (cum_spans env steps)) /
                     real_of_int (\<Sum>x \<leftarrow> steps. span_total_bytes env (step_to_byte_spans env x))
            else 0)"
    using r(3) u by simp
  show "c_line (redundancy m) =
           (if (\<Sum>x \<leftarrow> steps. line_total_lines (step_to_line_intervals x)) > 0
            then 1 - real_of_int (line_total_lines (cum_lines steps)) /
                     real_of_int (\<Sum>x \<leftarrow> steps. line_total_lines (step_to_line_intervals x))
            else 0)"
    using r(4) u by simp
qed

subsection \<open>Line intervals as sets of lines\<close>

lemma valid_intervals_simps [simp]:
  "valid_intervals []"
  "valid_intervals (iv # ivs) \<longleftrightarrow> fst iv \<le> snd iv \<and> valid_intervals ivs"
  "valid_intervals (xs @ ys) \<longleftrightarrow> valid_intervals xs \<and> valid_intervals ys"
  by (auto simp: valid_intervals_def split: prod.splits)

lemma valid_intervals_set: "valid_intervals ivs \<longleftrightarrow> (\<forall>iv \<in> set ivs. fst iv \<le> snd iv)"
  by (auto simp: valid_intervals_def list_all_iff)

lemma lines_of_simps [simp]:
  "lines_of [] = {}"
  "lines_of (iv # ivs) = {fst iv..snd iv} \<union> lines_of ivs"
  "lines_of (xs @ ys) = lines_of xs \<union> lines_of ys"
  by (auto simp: lines_of_def)

lemma finite_lines_of [simp]: "finite (lines_of ivs)"
  by (induction ivs) auto

lemma coalesce_valid:
  "fst l \<le> snd l \<Longrightarrow> valid_intervals cs \<Longrightarrow> valid_intervals (coalesce l cs)"
  by (induction cs arbitrary: l) auto

lemma merge_line_intervals_valid:
  assumes "valid_intervals ivs"
  shows "valid_intervals (merge_line_intervals ivs)"
proof (cases "ivs = []")
  case True then show ?thesis by (simp add: merge_line_intervals_def)
next
  case False
  define s where "s = sort ivs"
  have "length s = length ivs" by (simp add: s_def)
  then have shd: "s = hd s # tl s" using False by (cases s) auto
  have "valid_intervals s" using assms by (simp add: valid_intervals_set s_def)
  then have "fst (hd s) \<le> snd (hd s)" "valid_intervals (tl s)"
    using shd valid_intervals_simps(2) [of "hd s" "tl s"] by simp_all
  then have "valid_intervals (coalesce (hd s) (tl s))" by (rule coalesce_valid)
  then show ?thesis using False by (simp add: merge_line_intervals_coalesce s_def)
qed

lemma gapped_length:
  "sorted_wrt (\<lambda>a b. snd a + 1 < fst b) g \<Longrightarrow> valid_intervals g \<Longrightarrow>
   (\<Sum>iv \<leftarrow> g. snd iv - fst iv + 1) = int (card (lines_of g))"
proof (induction g)
  case Nil then show ?case by simp
next
  case (Cons a g)
  have "\<forall>b \<in> set g. snd a + 1 < fst b" using Cons.prems(1) by simp
  then have "\<forall>b \<in> set g. {fst a..snd a} \<inter> {fst b..snd b} = {}" by auto
  then have disj: "{fst a..snd a} \<inter> lines_of g = {}" by (auto simp: lines_of_def)
  have va: "fst a \<le> snd a" using Cons.prems(2) by simp
  have "card (lines_of (a # g)) = card {fst a..snd a} + card (lines_of g)"
    using disj by (simp add: card_Un_disjoint)
  moreover have "int (card {fst a..snd a}) = snd a - fst a + 1" using va by simp
  moreover have "(\<Sum>iv \<leftarrow> g. snd iv - fst iv + 1) = int (card (lines_of g))"
    using Cons by simp
  ultimately show ?case by simp
qed

lemma line_interval_length_alt:
  "line_interval_length ivs = (\<Sum>iv \<leftarrow> merge_line_intervals ivs. snd iv - fst iv + 1)"
  by (simp add: line_interval_length_def case_prod_unfold)

lemma line_interval_length_card:
  assumes "valid_intervals ivs"
  shows "line_interval_length ivs = int (card (lines_of ivs))"
proof -
  have "line_interval_length ivs = int (card (lines_of (merge_line_intervals ivs)))"
    unfolding line_interval_length_alt
    using merge_line_intervals_gaps merge_line_intervals_valid [OF assms] by (rule gapped_length)
  then show ?thesis by (simp add: merge_line_intervals_lines)
qed

lemma dict_get_Cons:
  "dict_get ((k, v) # d) f dflt = (if f = k then v else dict_get d f dflt)"
  by (simp add: dict_get_def)

lemma dict_get_notin: "f \<notin> fst ` set d \<Longrightarrow> dict_get d f dflt = dflt"
  by (simp add: dict_get_def map_of_eq_None_iff [THEN iffD2])

lemma dict_lines_Nil [simp]: "dict_lines [] = {}"
  by (simp add: dict_lines_def dict_get_def)

lemma dict_lines_Cons:
  "k \<notin> fst ` set d \<Longrightarrow> dict_lines ((k, v) # d) = ({k} \<times> lines_of v) \<union> dict_lines d"
  by (auto simp: dict_lines_def dict_get_Cons dict_get_notin split: if_splits)

lemma dict_lines_key: "(f, l) \<in> dict_lines d \<Longrightarrow> f \<in> fst ` set d"
proof (rule ccontr)
  assume m: "(f, l) \<in> dict_lines d" and n: "f \<notin> fst ` set d"
  from n have "dict_get d f [] = []" by (rule dict_get_notin)
  then show False using m by (simp add: dict_lines_def)
qed

lemma finite_dict_lines [simp]: "finite (dict_lines d)"
proof -
  have "dict_lines d \<subseteq> (\<Union>k \<in> fst ` set d. {k} \<times> lines_of (dict_get d k []))"
  proof (rule subsetI)
    fix x assume x: "x \<in> dict_lines d"
    obtain f l where fl: "x = (f, l)" by (cases x)
    have "f \<in> fst ` set d" using x fl dict_lines_key by blast
    moreover have "l \<in> lines_of (dict_get d f [])" using x fl by (simp add: dict_lines_def)
    ultimately show "x \<in> (\<Union>k \<in> fst ` set d. {k} \<times> lines_of (dict_get d k []))"
      unfolding fl by blast
  qed
  moreover have "finite (\<Union>k \<in> fst ` set d. {k} \<times> lines_of (dict_get d k []))" by simp
  ultimately show ?thesis by (rule finite_subset)
qed

lemma line_total_lines_card:
  "valid_dict d \<Longrightarrow> line_total_lines d = int (card (dict_lines d))"
proof (induction d)
  case Nil then show ?case by (simp add: line_total_lines_def)
next
  case (Cons p d)
  obtain k v where p: "p = (k, v)" by (cases p)
  have k: "k \<notin> fst ` set d" and vd: "valid_dict d" and vv: "valid_intervals v"
    using Cons.prems by (auto simp: valid_dict_def p)
  have disj: "({k} \<times> lines_of v) \<inter> dict_lines d = {}"
    using k dict_lines_key by auto
  have "card (dict_lines (p # d)) = card ({k} \<times> lines_of v) + card (dict_lines d)"
    unfolding p dict_lines_Cons [OF k] using disj by (simp add: card_Un_disjoint)
  also have "card ({k} \<times> lines_of v) = card (lines_of v)" by (simp add: card_cartesian_product_singleton)
  finally have "int (card (dict_lines (p # d))) = line_interval_length v + line_total_lines d"
    using Cons.IH [OF vd] line_interval_length_card [OF vv] by simp
  then show ?case by (simp add: line_total_lines_def p)
qed

lemma dict_get_update:
  "dict_get (AList.update k v d) f dflt = (if f = k then v else dict_get d f dflt)"
  by (simp add: dict_get_def update_conv')

lemma dict_get_dict_append:
  "dict_get (dict_append d k x) f [] = (if f = k then dict_get d k [] @ [x] else dict_get d f [])"
  by (simp add: dict_append_def dict_get_update)

lemma distinct_dict_append:
  "distinct (map fst d) \<Longrightarrow> distinct (map fst (dict_append d k x))"
  by (simp add: dict_append_def distinct_update)

lemma dict_get_mem: "distinct (map fst d) \<Longrightarrow> (k, v) \<in> set d \<Longrightarrow> dict_get d k dflt = v"
  by (simp add: dict_get_def)

lemma valid_dict_iff:
  "valid_dict d \<longleftrightarrow> distinct (map fst d) \<and> (\<forall>k \<in> fst ` set d. valid_intervals (dict_get d k []))"
proof (cases "distinct (map fst d)")
  case False then show ?thesis by (simp add: valid_dict_def)
next
  case True
  have "list_all (\<lambda>(f, ivs). valid_intervals ivs) d \<longleftrightarrow>
        (\<forall>k \<in> fst ` set d. valid_intervals (dict_get d k []))"
  proof
    assume a: "list_all (\<lambda>(f, ivs). valid_intervals ivs) d"
    show "\<forall>k \<in> fst ` set d. valid_intervals (dict_get d k [])"
    proof
      fix k assume "k \<in> fst ` set d"
      then obtain v where kv: "(k, v) \<in> set d" by auto
      then have "valid_intervals v" using a by (auto simp: list_all_iff)
      then show "valid_intervals (dict_get d k [])" using dict_get_mem [OF True kv] by simp
    qed
  next
    assume a: "\<forall>k \<in> fst ` set d. valid_intervals (dict_get d k [])"
    show "list_all (\<lambda>(f, ivs). valid_intervals ivs) d"
      unfolding list_all_iff
    proof
      fix p assume p: "p \<in> set d"
      obtain k v where kv: "p = (k, v)" by (cases p)
      have "k \<in> fst ` set d" using p kv by force
      then have "valid_intervals (dict_get d k [])" using a by blast
      then show "case p of (f, ivs) \<Rightarrow> valid_intervals ivs"
        using dict_get_mem [OF True, of k v] p kv by simp
    qed
  qed
  then show ?thesis using True by (simp add: valid_dict_def)
qed

lemma step_to_line_intervals_alt:
  "step_to_line_intervals x =
     map (\<lambda>(f, ivs). (f, merge_line_intervals ivs)) (foldl add_line_span [] (st_spans x))"
proof -
  have "add_line_span = (\<lambda>result sp.
                      if sp_file sp = [] then result
                      else if start_line sp > 0 \<and> end_line sp > 0
                           then dict_append result (sp_file sp) (start_line sp, end_line sp)
                           else result)"
    by (intro ext) (simp add: add_line_span_def)
  then show ?thesis by (simp add: step_to_line_intervals_def)
qed

lemma foldl_add_line_span:
  "distinct (map fst acc) \<Longrightarrow>
     distinct (map fst (foldl add_line_span acc sps)) \<and>
     (\<forall>f. dict_get (foldl add_line_span acc sps) f [] = dict_get acc f [] @ sel_spans f sps)"
proof (induction sps arbitrary: acc)
  case Nil then show ?case by (simp add: sel_spans_def)
next
  case (Cons sp sps)
  let ?acc = "add_line_span acc sp"
  have d: "distinct (map fst ?acc)"
    using Cons.prems by (simp add: add_line_span_def distinct_dict_append)
  have g: "\<And>f. dict_get ?acc f [] = dict_get acc f [] @ sel_spans f [sp]"
    by (auto simp: add_line_span_def dict_get_dict_append sel_spans_def)
  have s: "\<And>f. sel_spans f (sp # sps) = sel_spans f [sp] @ sel_spans f sps"
    by (simp add: sel_spans_def)
  show ?case
    using Cons.IH [OF d] g by (simp add: s)
qed

lemma dict_get_map_merge:
  "dict_get (map (\<lambda>(f, ivs). (f, merge_line_intervals ivs)) d) f [] =
     merge_line_intervals (dict_get d f [])"
  by (simp add: dict_get_def map_of_map merge_line_intervals_def split: option.splits)

lemma lines_of_sel_spans:
  "l \<in> lines_of (sel_spans f sps) \<longleftrightarrow>
     (\<exists>sp \<in> set sps. sp_file sp = f \<and> f \<noteq> [] \<and> 0 < start_line sp \<and> 0 < end_line sp \<and>
                      start_line sp \<le> l \<and> l \<le> end_line sp)"
  by (auto simp: lines_of_def sel_spans_def)

lemma valid_sel_spans:
  "list_all (\<lambda>sp. start_line sp \<le> end_line sp) sps \<Longrightarrow> valid_intervals (sel_spans f sps)"
  by (auto simp: valid_intervals_set sel_spans_def list_all_iff)

lemma step_to_line_intervals_get:
  "dict_get (step_to_line_intervals x) f [] = merge_line_intervals (sel_spans f (st_spans x))"
  using foldl_add_line_span [of "[]" "st_spans x"]
  by (simp add: step_to_line_intervals_alt dict_get_map_merge) (simp add: dict_get_def)

lemma step_to_line_intervals_distinct: "distinct (map fst (step_to_line_intervals x))"
proof -
  have "map fst (step_to_line_intervals x) = map fst (foldl add_line_span [] (st_spans x))"
    by (simp add: step_to_line_intervals_alt case_prod_unfold comp_def)
  then show ?thesis using foldl_add_line_span [of "[]" "st_spans x"] by simp
qed

lemma dict_lines_step: "dict_lines (step_to_line_intervals x) = step_line_set x"
  by (auto simp: dict_lines_def step_line_set_def step_to_line_intervals_get
      merge_line_intervals_lines lines_of_sel_spans)

lemma valid_dict_step:
  "well_formed_step x \<Longrightarrow> valid_dict (step_to_line_intervals x)"
  unfolding valid_dict_iff
  by (simp add: step_to_line_intervals_distinct step_to_line_intervals_get
      merge_line_intervals_valid valid_sel_spans well_formed_step_def)

lemma step_total_lines_card:
  "well_formed_step x \<Longrightarrow> line_total_lines (step_to_line_intervals x) = int (card (step_line_set x))"
  using line_total_lines_card [OF valid_dict_step] by (simp add: dict_lines_step)

lemma merge_lines_into_alt: "merge_lines_into u sl = foldl merge_line_entry u sl"
proof -
  have "merge_line_entry = (\<lambda>u (f, ivs). AList.update f (merge_line_intervals (dict_get u f [] @ ivs)) u)"
    by (intro ext) (simp add: merge_line_entry_def)
  then show ?thesis by (simp add: merge_lines_into_def)
qed

lemma dict_lines_entry:
  "dict_lines (merge_line_entry u (f, ivs)) = dict_lines u \<union> ({f} \<times> lines_of ivs)"
  by (auto simp: dict_lines_def merge_line_entry_def dict_get_update merge_line_intervals_lines
      split: if_splits)

lemma valid_dict_entry:
  assumes "valid_dict u" and "valid_intervals ivs"
  shows "valid_dict (merge_line_entry u (f, ivs))"
proof -
  have d: "distinct (map fst u)" and v': "\<forall>k \<in> fst ` set u. valid_intervals (dict_get u k [])"
    using assms(1) unfolding valid_dict_iff by blast+
  have v: "\<And>k. k \<in> fst ` set u \<Longrightarrow> valid_intervals (dict_get u k [])"
    using v' by blast
  have vf: "valid_intervals (dict_get u f [])"
  proof (cases "f \<in> fst ` set u")
    case True then show ?thesis by (rule v)
  next
    case False then show ?thesis by (simp add: dict_get_notin)
  qed
  have "valid_intervals (merge_line_intervals (dict_get u f [] @ ivs))"
    using vf assms(2) by (intro merge_line_intervals_valid) simp
  then show ?thesis
    unfolding valid_dict_iff merge_line_entry_def
    using d v by (auto simp: distinct_update dict_get_update dom_update)
qed

lemma merge_lines_into_sem:
  "valid_dict u \<Longrightarrow> valid_dict sl \<Longrightarrow>
     valid_dict (merge_lines_into u sl) \<and>
     dict_lines (merge_lines_into u sl) = dict_lines u \<union> dict_lines sl"
proof (induction sl arbitrary: u)
  case Nil then show ?case by (simp add: merge_lines_into_alt)
next
  case (Cons p sl)
  obtain f ivs where p: "p = (f, ivs)" by (cases p)
  have k: "f \<notin> fst ` set sl" and vs: "valid_dict sl" and vi: "valid_intervals ivs"
    using Cons.prems(2) by (auto simp: valid_dict_def p)
  have vu: "valid_dict (merge_line_entry u (f, ivs))"
    using Cons.prems(1) vi by (rule valid_dict_entry)
  have "merge_lines_into u (p # sl) = merge_lines_into (merge_line_entry u (f, ivs)) sl"
    by (simp add: merge_lines_into_alt p)
  then show ?case
    using Cons.IH [OF vu vs] by (auto simp: p dict_lines_entry dict_lines_Cons [OF k])
qed

lemma cum_lines_sem:
  "\<forall>x \<in> set steps. well_formed_step x \<Longrightarrow>
     valid_dict (cum_lines steps) \<and> dict_lines (cum_lines steps) = (\<Union>x \<in> set steps. step_line_set x)"
proof (induction steps rule: rev_induct)
  case Nil then show ?case by (simp add: cum_Nil valid_dict_def)
next
  case (snoc x xs)
  have ih: "valid_dict (cum_lines xs)" "dict_lines (cum_lines xs) = (\<Union>x \<in> set xs. step_line_set x)"
    using snoc by simp_all
  have vx: "valid_dict (step_to_line_intervals x)" using snoc.prems by (simp add: valid_dict_step)
  show ?case
    using merge_lines_into_sem [OF ih(1) vx] ih(2)
    by (auto simp: cum_snoc dict_lines_step)
qed

lemma gap_disjoint:
  "\<forall>b \<in> set bs. e < fst b \<Longrightarrow> {s..e} \<inter> lines_of bs = {}"
  by (auto simp: lines_of_def)

lemma intersect_loop_sem:
  "sorted_wrt (\<lambda>a b. snd a + 1 < fst b) xs \<Longrightarrow> sorted_wrt (\<lambda>a b. snd a + 1 < fst b) ys \<Longrightarrow>
   valid_intervals (intersect_loop xs ys) \<and>
   lines_of (intersect_loop xs ys) = lines_of xs \<inter> lines_of ys"
proof (induction xs ys rule: intersect_loop.induct)
  case (1 a as b bs)
  have ga: "\<forall>c \<in> set as. snd a + 1 < fst c" and sa: "sorted_wrt (\<lambda>a b. snd a + 1 < fst b) as"
    using "1.prems"(1) by simp_all
  have gb: "\<forall>c \<in> set bs. snd b + 1 < fst c" and sb: "sorted_wrt (\<lambda>a b. snd a + 1 < fst b) bs"
    using "1.prems"(2) by simp_all
  let ?o = "(max (fst a) (fst b), min (snd a) (snd b))"
  let ?head = "(if fst ?o \<le> snd ?o then [?o] else [])"
  have head: "valid_intervals ?head" "lines_of ?head = {fst a..snd a} \<inter> {fst b..snd b}"
    by auto
  show ?case
  proof (cases "snd a < snd b")
    case True
    have ih: "valid_intervals (intersect_loop as (b # bs))"
      "lines_of (intersect_loop as (b # bs)) = lines_of as \<inter> lines_of (b # bs)"
      using "1.IH"(1) [OF refl True sa "1.prems"(2)] by simp_all
    have "\<forall>c \<in> set bs. snd a < fst c" using gb True by fastforce
    then have d: "{fst a..snd a} \<inter> lines_of bs = {}" by (rule gap_disjoint)
    have "intersect_loop (a # as) (b # bs) = ?head @ intersect_loop as (b # bs)"
      using True by (simp add: Let_def)
    then show ?thesis using head ih d by (simp only: valid_intervals_simps lines_of_simps) auto
  next
    case False
    show ?thesis
    proof (cases "snd b < snd a")
      case True
      have ih: "valid_intervals (intersect_loop (a # as) bs)"
        "lines_of (intersect_loop (a # as) bs) = lines_of (a # as) \<inter> lines_of bs"
        using "1.IH"(2) [OF refl False True "1.prems"(1) sb] by simp_all
      have "\<forall>c \<in> set as. snd b < fst c" using ga True by fastforce
      then have d: "{fst b..snd b} \<inter> lines_of as = {}" by (rule gap_disjoint)
      have "intersect_loop (a # as) (b # bs) = ?head @ intersect_loop (a # as) bs"
        using False True by (simp add: Let_def)
      then show ?thesis using head ih d by (simp only: valid_intervals_simps lines_of_simps) auto
    next
      case nb: False
      have eq: "snd a = snd b" using False nb by simp
      have ih: "valid_intervals (intersect_loop as bs)"
        "lines_of (intersect_loop as bs) = lines_of as \<inter> lines_of bs"
        using "1.IH"(3) [OF refl False nb sa sb] by simp_all
      have "\<forall>c \<in> set as. snd b < fst c" using ga eq by fastforce
      then have d1: "{fst b..snd b} \<inter> lines_of as = {}" by (rule gap_disjoint)
      have "\<forall>c \<in> set bs. snd a < fst c" using gb eq by fastforce
      then have d2: "{fst a..snd a} \<inter> lines_of bs = {}" by (rule gap_disjoint)
      have "intersect_loop (a # as) (b # bs) = ?head @ intersect_loop as bs"
        using False nb by (simp add: Let_def)
      then show ?thesis using head ih d1 d2 by (simp only: valid_intervals_simps lines_of_simps) auto
    qed
  qed
qed simp_all

lemma line_interval_intersect_size_card:
  "line_interval_intersect_size a b = int (card (lines_of a \<inter> lines_of b))"
proof -
  have s: "valid_intervals (line_interval_intersect a b) \<and>
        lines_of (line_interval_intersect a b) =
          lines_of (merge_line_intervals a) \<inter> lines_of (merge_line_intervals b)"
    unfolding line_interval_intersect_def
    using merge_line_intervals_gaps merge_line_intervals_gaps by (rule intersect_loop_sem)
  then have "line_interval_intersect_size a b = int (card (lines_of (line_interval_intersect a b)))"
    by (simp add: line_interval_intersect_size_def line_interval_length_card)
  then show ?thesis using s by (simp add: merge_line_intervals_lines)
qed

lemma line_intersection_lines_card:
  "line_intersection_lines a b = int (card (dict_lines a \<inter> dict_lines b))"
proof -
  let ?K = "set (map fst a) \<union> set (map fst b)"
  let ?A = "\<lambda>f. {f} \<times> (lines_of (dict_get a f []) \<inter> lines_of (dict_get b f []))"
  have u: "dict_lines a \<inter> dict_lines b = (\<Union>f \<in> ?K. ?A f)"
  proof (rule set_eqI)
    fix x :: "string \<times> int"
    obtain f l where x: "x = (f, l)" by (cases x)
    show "x \<in> dict_lines a \<inter> dict_lines b \<longleftrightarrow> x \<in> (\<Union>f \<in> ?K. ?A f)"
    proof
      assume h: "x \<in> dict_lines a \<inter> dict_lines b"
      then have "f \<in> ?K" using dict_lines_key [of f l a] x by auto
      moreover have "l \<in> lines_of (dict_get a f []) \<inter> lines_of (dict_get b f [])"
        using h x by (simp add: dict_lines_def)
      ultimately show "x \<in> (\<Union>f \<in> ?K. ?A f)" unfolding x by blast
    next
      assume "x \<in> (\<Union>f \<in> ?K. ?A f)"
      then show "x \<in> dict_lines a \<inter> dict_lines b" by (auto simp: dict_lines_def)
    qed
  qed
  have "card (\<Union>f \<in> ?K. ?A f) = (\<Sum>f \<in> ?K. card (?A f))"
    by (rule card_UN_disjoint) auto
  also have "\<dots> = (\<Sum>f \<in> ?K. card (lines_of (dict_get a f []) \<inter> lines_of (dict_get b f [])))"
    by (simp add: card_cartesian_product_singleton)
  finally have "int (card (dict_lines a \<inter> dict_lines b)) =
      (\<Sum>f \<in> ?K. int (card (lines_of (dict_get a f []) \<inter> lines_of (dict_get b f []))))"
    unfolding u by simp
  then show ?thesis
    by (simp add: line_intersection_lines_def line_interval_intersect_size_card)
qed

lemma single_step_auc:
  assumes "length steps = 1"
    and "compute_trajectory_metrics env steps gf gs gsp gl = Inr m"
  shows "auc_coverage m = cum_coverage env gf gs gsp (unwrap_gold_lines gl) steps"
proof -
  have ne: "steps \<noteq> []" using assms(1) by auto
  have "c_file (auc_coverage m) = c_file (cum_coverage env gf gs gsp (unwrap_gold_lines gl) steps)"
    "c_symbol (auc_coverage m) = c_symbol (cum_coverage env gf gs gsp (unwrap_gold_lines gl) steps)"
    "c_span (auc_coverage m) = c_span (cum_coverage env gf gs gsp (unwrap_gold_lines gl) steps)"
    "c_line (auc_coverage m) = c_line (cum_coverage env gf gs gsp (unwrap_gold_lines gl) steps)"
    using trajectory_auc [OF ne assms(2)] assms(1) by simp_all
  then show ?thesis by (intro coverage4.equality) simp_all
qed

lemma c_file_cum_coverage:
  "c_file (cum_coverage env gf gs gsp gl steps) =
     (if gf \<noteq> {} then real (card (cum_files steps \<inter> gf)) / real (card gf) else 1)"
  "c_symbol (cum_coverage env gf gs gsp gl steps) =
     (if gs \<noteq> {} then real (card (cum_symbols env steps \<inter> gs)) / real (card gs) else 1)"
  "c_span (cum_coverage env gf gs gsp gl steps) =
     (if span_total_bytes env gsp > 0
      then real_of_int (span_intersection_bytes env (cum_spans env steps) gsp) /
           real_of_int (span_total_bytes env gsp) else 1)"
  "c_line (cum_coverage env gf gs gsp gl steps) =
     (if gl \<noteq> [] then
        (if line_total_lines gl > 0
         then real_of_int (line_intersection_lines (cum_lines steps) gl) / real_of_int (line_total_lines gl)
         else 1)
      else 0)"
  by (simp_all add: cum_coverage_def coverage_now_def Let_def)

lemma full_cover:
  assumes "finite (g :: 'a set)" and "g \<subseteq> u"
  shows "(if g \<noteq> {} then real (card (u \<inter> g)) / real (card g) else 1) = 1"
proof (cases "g = {}")
  case True then show ?thesis by simp
next
  case False
  have "u \<inter> g = g" using assms(2) by auto
  moreover have "card g > 0" using False assms(1) by (simp add: card_gt_0_iff)
  ultimately show ?thesis using False by simp
qed

lemma c_line_cum_sets:
  assumes "\<forall>x \<in> set xs. well_formed_step x" and "valid_dict gl"
  shows "c_line (cum_coverage env gf gs gsp gl xs) =
           line_coverage_sets (\<Union>x \<in> set xs. step_line_set x) gl"
proof -
  have "dict_lines (cum_lines xs) = (\<Union>x \<in> set xs. step_line_set x)"
    using cum_lines_sem [OF assms(1)] by simp
  then show ?thesis
    by (simp add: c_file_cum_coverage(4) line_coverage_sets_def line_intersection_lines_card
        line_total_lines_card [OF assms(2)])
qed

lemma c_file_cum_sets:
  "c_file (cum_coverage env gf gs gsp gl xs) =
     (if gf \<noteq> {} then real (card ((\<Union>x \<in> set xs. set (st_files x)) \<inter> gf)) / real (card gf) else 1)"
  by (simp add: c_file_cum_coverage(1) cum_files_def)

lemma well_formed_take:
  "\<forall>x \<in> set xs. well_formed_step x \<Longrightarrow> \<forall>x \<in> set (take n xs). well_formed_step x"
  by (meson in_set_takeD)

lemma line_sizes_sets:
  assumes "\<forall>x \<in> set steps. well_formed_step x"
  shows "(\<Sum>x \<leftarrow> steps. line_total_lines (step_to_line_intervals x)) =
           (\<Sum>x \<leftarrow> steps. int (card (step_line_set x)))"
    and "line_total_lines (cum_lines steps) = int (card (\<Union>x \<in> set steps. step_line_set x))"
proof -
  have m: "map (\<lambda>x. line_total_lines (step_to_line_intervals x)) steps =
        map (\<lambda>x. int (card (step_line_set x))) steps"
    using assms by (intro map_cong refl) (simp add: step_total_lines_card)
  show "(\<Sum>x \<leftarrow> steps. line_total_lines (step_to_line_intervals x)) =
           (\<Sum>x \<leftarrow> steps. int (card (step_line_set x)))"
    by (rule arg_cong [OF m])
  show "line_total_lines (cum_lines steps) = int (card (\<Union>x \<in> set steps. step_line_set x))"
    using cum_lines_sem [OF assms] line_total_lines_card [of "cum_lines steps"] by simp
qed

lemma line_coverage_sets_full:
  assumes "gl \<noteq> []" and "dict_lines gl \<subseteq> obs"
  shows "line_coverage_sets obs gl = 1"
proof -
  have "obs \<inter> dict_lines gl = dict_lines gl" using assms(2) by auto
  then show ?thesis using assms(1) by (simp add: line_coverage_sets_def)
qed



lemma example_steps_symbols:
  "\<forall>x \<in> set example_steps. \<exists>r. step_symbols example_env x = Inr r"
  by (simp add: example_steps_def step_symbols_def step_to_byte_spans_def example_env_def
      dict_append_def dict_get_def extract_def_set_in_spans_def example_path_exists
      example_extract_defs)

lemma merge_single [simp]: "merge_line_intervals [iv] = [iv]"
  by (simp add: merge_line_intervals_def)

lemma example_cov:
  "c_file (cum_coverage example_env {''a.py'', ''b.py''} {} [] [(''a.py'', [(7, 10)])] (take 1 example_steps)) = 1 / 2"
  "c_file (cum_coverage example_env {''a.py'', ''b.py''} {} [] [(''a.py'', [(7, 10)])] (take 2 example_steps)) = 1"
  by (simp_all add: c_file_cum_coverage example_steps_def cum_files_def)

lemma example_cov_line:
  "c_line (cum_coverage example_env {''a.py'', ''b.py''} {} [] [(''a.py'', [(7, 10)])] (take 1 example_steps)) = 1 / 2"
  by (simp add: c_file_cum_coverage example_steps_def cum_lines_def step_to_line_intervals_def
      dict_append_def dict_get_def merge_lines_into_def line_total_lines_def line_interval_length_def
      line_intersection_lines_def line_interval_intersect_size_def line_interval_intersect_def)


lemma example_cov_line2:
  "c_line (cum_coverage example_env {''a.py'', ''b.py''} {} [] [(''a.py'', [(7, 10)])] (take 2 example_steps)) = 1 / 2"
  by (simp add: c_file_cum_coverage example_steps_def cum_lines_def step_to_line_intervals_def
      dict_append_def dict_get_def merge_lines_into_def line_total_lines_def line_interval_length_def
      line_intersection_lines_def line_interval_intersect_size_def line_interval_intersect_def)

lemma example_steps_well_formed:
  "list_all well_formed_step example_steps" "valid_dict [(''a.py'', [(7, 10)])]"
  by (simp_all add: example_steps_def well_formed_step_def valid_dict_def)


lemma same_range_three:
  assumes "f \<noteq> []" and "0 < a"
    and "st_spans x = [\<lparr> sp_file = f, start_line = a, end_line = a + 49 \<rparr>]"
  shows "line_total_lines (step_to_line_intervals x) = 50"
    and "line_total_lines (cum_lines [x, x, x]) = 50"
proof -
  have sl: "step_to_line_intervals x = [(f, [(a, a + 49)])]"
    using assms by (simp add: step_to_line_intervals_def dict_append_def dict_get_def)
  have mm: "merge_line_intervals [(a, a + 49), (a, a + 49)] = [(a, a + 49)]"
    by (simp add: merge_line_intervals_def merge_step_def)
  show "line_total_lines (step_to_line_intervals x) = 50"
    by (simp add: sl line_total_lines_def line_interval_length_def)
  have "cum_lines [x, x, x] = [(f, [(a, a + 49)])]"
    by (simp add: cum_lines_def sl merge_lines_into_def dict_get_def mm)
  then show "line_total_lines (cum_lines [x, x, x]) = 50"
    by (simp add: line_total_lines_def line_interval_length_def)
qed


lemma reread_step_symbols: "\<exists>r. step_symbols example_env reread_step = Inr r"
  by (simp add: reread_step_def step_symbols_def step_to_byte_spans_def example_env_def
      dict_append_def dict_get_def extract_def_set_in_spans_def example_path_exists
      example_extract_defs)


lemma granularity_line_none:
  assumes "pred_lines = None \<or> gold_lines = None"
  shows "gm_coverage (gm_line (compute_granularity_metrics env pf pd ps gf gd gsp pred_lines gold_lines)) = 0"
    and "gm_precision (gm_line (compute_granularity_metrics env pf pd ps gf gd gsp pred_lines gold_lines)) = 0"
  using assms
  by (auto simp: compute_granularity_metrics_def Let_def split: prod.splits option.splits)

lemma granularity_gold_empty:
  "gf = {} \<Longrightarrow> gm_coverage (gm_file (compute_granularity_metrics env pf pd ps gf gd gsp pl gl)) = 1"
  "gd = {} \<Longrightarrow> gm_coverage (gm_symbol (compute_granularity_metrics env pf pd ps gf gd gsp pl gl)) = 1"
  "gsp = [] \<Longrightarrow> gm_coverage (gm_span (compute_granularity_metrics env pf pd ps gf gd gsp pl gl)) = 1"
  by (auto simp: compute_granularity_metrics_def Let_def coverage_precision_def span_total_bytes_def
      split: prod.splits option.splits)

lemma trajectory_entries:
  assumes "steps \<noteq> []" and "compute_trajectory_metrics env steps gf gs gsp gl = Inr m"
    and "e \<in> set (tm_steps m)"
  shows "\<exists>t < length steps. sm_coverage e = cum_coverage env gf gs gsp (unwrap_gold_lines gl) (take (t + 1) steps)"
  using trajectory_steps [OF assms(1,2)] assms(3) by (auto simp: step_entry_def)

text \<open>
  C10. At the line granularity \<^verbatim>\<open>compute_granularity_metrics\<close> returns coverage and
  precision \<open>0\<close> whenever \<open>pred_lines\<close> or \<open>gold_lines\<close> is \<open>None\<close>, and
  \<^verbatim>\<open>compute_trajectory_metrics\<close> reports line coverage \<open>0\<close> for every step (hence line
  AUC \<open>0\<close>) when the gold line map is \<open>None\<close> or empty; at the file, symbol and span
  granularities an empty gold gives coverage \<open>1\<close>, in both functions.
\<close>

theorem line_gold_empty_spec:
  "(pred_lines = None \<or> gold_lines = None \<longrightarrow>
      gm_coverage (gm_line (compute_granularity_metrics env pf pd ps gf gd gsp pred_lines gold_lines)) = 0 \<and>
      gm_precision (gm_line (compute_granularity_metrics env pf pd ps gf gd gsp pred_lines gold_lines)) = 0) \<and>
   (steps \<noteq> [] \<and> compute_trajectory_metrics env steps gf gd gsp gl = Inr m \<and>
    (gl = None \<or> gl = Some []) \<longrightarrow>
      (\<forall>e \<in> set (tm_steps m). c_line (sm_coverage e) = 0) \<and> c_line (auc_coverage m) = 0) \<and>
   (gf = {} \<longrightarrow>
      gm_coverage (gm_file (compute_granularity_metrics env pf pd ps gf gd gsp pred_lines gold_lines)) = 1) \<and>
   (gd = {} \<longrightarrow>
      gm_coverage (gm_symbol (compute_granularity_metrics env pf pd ps gf gd gsp pred_lines gold_lines)) = 1) \<and>
   (gsp = [] \<longrightarrow>
      gm_coverage (gm_span (compute_granularity_metrics env pf pd ps gf gd gsp pred_lines gold_lines)) = 1) \<and>
   (steps \<noteq> [] \<and> compute_trajectory_metrics env steps gf gd gsp gl = Inr m \<longrightarrow>
      (gf = {} \<longrightarrow> (\<forall>e \<in> set (tm_steps m). c_file (sm_coverage e) = 1)) \<and>
      (gd = {} \<longrightarrow> (\<forall>e \<in> set (tm_steps m). c_symbol (sm_coverage e) = 1)) \<and>
      (gsp = [] \<longrightarrow> (\<forall>e \<in> set (tm_steps m). c_span (sm_coverage e) = 1)))"
proof (intro conjI impI ballI)
  assume "pred_lines = None \<or> gold_lines = None"
  then show "gm_coverage (gm_line (compute_granularity_metrics env pf pd ps gf gd gsp pred_lines gold_lines)) = 0"
    by (rule granularity_line_none)
next
  assume "pred_lines = None \<or> gold_lines = None"
  then show "gm_precision (gm_line (compute_granularity_metrics env pf pd ps gf gd gsp pred_lines gold_lines)) = 0"
    by (rule granularity_line_none)
next
  fix e
  assume h: "steps \<noteq> [] \<and> compute_trajectory_metrics env steps gf gd gsp gl = Inr m \<and>
    (gl = None \<or> gl = Some [])" and e: "e \<in> set (tm_steps m)"
  then have u: "unwrap_gold_lines gl = []" by (auto simp: unwrap_gold_lines_def)
  from h e trajectory_entries [of steps env gf gd gsp gl m e]
  show "c_line (sm_coverage e) = 0" by (auto simp: u c_file_cum_coverage)
next
  assume h: "steps \<noteq> [] \<and> compute_trajectory_metrics env steps gf gd gsp gl = Inr m \<and>
    (gl = None \<or> gl = Some [])"
  then have u: "unwrap_gold_lines gl = []" by (auto simp: unwrap_gold_lines_def)
  from h have "c_line (auc_coverage m) =
      (\<Sum>t<length steps. c_line (cum_coverage env gf gd gsp (unwrap_gold_lines gl) (take (t + 1) steps))) / real (length steps)"
    using trajectory_auc(4) by blast
  then show "c_line (auc_coverage m) = 0" by (simp add: u c_file_cum_coverage)
next
  assume "gf = {}"
  then show "gm_coverage (gm_file (compute_granularity_metrics env pf pd ps gf gd gsp pred_lines gold_lines)) = 1"
    by (rule granularity_gold_empty)
next
  assume "gd = {}"
  then show "gm_coverage (gm_symbol (compute_granularity_metrics env pf pd ps gf gd gsp pred_lines gold_lines)) = 1"
    by (rule granularity_gold_empty)
next
  assume "gsp = []"
  then show "gm_coverage (gm_span (compute_granularity_metrics env pf pd ps gf gd gsp pred_lines gold_lines)) = 1"
    by (rule granularity_gold_empty)
next
  fix e
  assume h: "steps \<noteq> [] \<and> compute_trajectory_metrics env steps gf gd gsp gl = Inr m"
    and g: "gf = {}" and e: "e \<in> set (tm_steps m)"
  from h e trajectory_entries [of steps env gf gd gsp gl m e]
  show "c_file (sm_coverage e) = 1" by (auto simp: g c_file_cum_coverage)
next
  fix e
  assume h: "steps \<noteq> [] \<and> compute_trajectory_metrics env steps gf gd gsp gl = Inr m"
    and g: "gd = {}" and e: "e \<in> set (tm_steps m)"
  from h e trajectory_entries [of steps env gf gd gsp gl m e]
  show "c_symbol (sm_coverage e) = 1" by (auto simp: g c_file_cum_coverage)
next
  fix e
  assume h: "steps \<noteq> [] \<and> compute_trajectory_metrics env steps gf gd gsp gl = Inr m"
    and g: "gsp = []" and e: "e \<in> set (tm_steps m)"
  from h e trajectory_entries [of steps env gf gd gsp gl m e]
  show "c_span (sm_coverage e) = 1" by (auto simp: g c_file_cum_coverage span_total_bytes_def)
qed

theorem line_gold_empty_spec_witness:
  "gm_coverage (gm_line (compute_granularity_metrics example_env {''a.py''} {} [] {} {} []
       (Some [(''a.py'', [(7, 8)])]) None)) = 0 \<and>
   gm_coverage (gm_file (compute_granularity_metrics example_env {''a.py''} {} [] {} {} []
       (Some [(''a.py'', [(7, 8)])]) None)) = 1 \<and>
   example_steps \<noteq> [] \<and>
   (\<exists>m. compute_trajectory_metrics example_env example_steps {} {} [] None = Inr m \<and>
        c_line (auc_coverage m) = 0 \<and> c_file (auc_coverage m) = 1)"
proof -
  have ne: "example_steps \<noteq> []" and len: "length example_steps = 2"
    by (simp_all add: example_steps_def)
  obtain m where m: "compute_trajectory_metrics example_env example_steps {} {} [] None = Inr m"
    using compute_trajectory_metrics_total [of example_steps example_env "{}" "{}" "[]" None]
      example_steps_symbols by blast
  have f: "c_file (auc_coverage m) = 1"
    using trajectory_auc(1) [OF ne m] by (simp add: c_file_cum_coverage len)
  show ?thesis
    using line_gold_empty_spec [of "Some [(''a.py'', [(7, 8)])]" None example_env "{''a.py''}" "{}" "[]"
        "{}" "{}" "[]" example_steps None m] ne m f
    by auto
qed

subsection \<open>Trajectory parsing\<close>

lemma parse_trajectory_empty:
  assumes "td_pred_steps td = []"
  shows "parse_trajectory td =
    ([\<lparr> st_files = td_pred_files td, st_spans = spans_of_dict (td_pred_spans td),
        st_symbols = td_pred_symbols td \<rparr>],
     \<lparr> st_files = td_pred_files td, st_spans = spans_of_dict (td_pred_spans td),
       st_symbols = td_pred_symbols td \<rparr>)"
  using assms by (simp add: parse_trajectory_def Let_def)

text \<open>
  C9. When \<^verbatim>\<open>pred_steps\<close> is empty, \<^verbatim>\<open>parse_trajectory\<close> returns the final step as
  the only trajectory step. The trajectory metrics of the instance are then those of a
  one-step trajectory: one per-step entry, and an AUC equal to the coverage of the final
  context, which is \<open>1\<close> at the file granularity when the final files contain the gold
  files, not the \<open>0\<close> of a trajectory without steps.
\<close>

theorem parse_trajectory_fallback_spec:
  assumes "td_pred_steps td = []"
  shows "parse_trajectory td = ([snd (parse_trajectory td)], snd (parse_trajectory td)) \<and>
     snd (parse_trajectory td) =
       \<lparr> st_files = td_pred_files td, st_spans = spans_of_dict (td_pred_spans td),
         st_symbols = td_pred_symbols td \<rparr> \<and>
     (compute_trajectory_metrics env (fst (parse_trajectory td)) gf gs gsp gl = Inr m \<longrightarrow>
        length (tm_steps m) = 1 \<and>
        auc_coverage m = sm_coverage (hd (tm_steps m)) \<and>
        auc_coverage m =
          cum_coverage env gf gs gsp (unwrap_gold_lines gl) [snd (parse_trajectory td)] \<and>
        c_file (auc_coverage m) =
          (if gf \<noteq> {} then real (card (set (td_pred_files td) \<inter> gf)) / real (card gf) else 1) \<and>
        (finite gf \<and> gf \<subseteq> set (td_pred_files td) \<longrightarrow> c_file (auc_coverage m) = 1))"
proof (intro conjI impI)
  let ?final = "\<lparr> st_files = td_pred_files td, st_spans = spans_of_dict (td_pred_spans td),
         st_symbols = td_pred_symbols td \<rparr>"
  have p: "parse_trajectory td = ([?final], ?final)"
    using assms by (rule parse_trajectory_empty)
  show "parse_trajectory td = ([snd (parse_trajectory td)], snd (parse_trajectory td))"
    by (simp add: p)
  show "snd (parse_trajectory td) = ?final" by (simp add: p)
  {
    assume c: "compute_trajectory_metrics env (fst (parse_trajectory td)) gf gs gsp gl = Inr m"
    then have c1: "compute_trajectory_metrics env [?final] gf gs gsp gl = Inr m" by (simp add: p)
    have l: "length [?final] = 1" by simp
    have ne: "[?final] \<noteq> []" by simp
    have auc: "auc_coverage m = cum_coverage env gf gs gsp (unwrap_gold_lines gl) [?final]"
      by (rule single_step_auc [OF l c1])
    have st: "tm_steps m = [step_entry env gf gs gsp (unwrap_gold_lines gl) [?final] 0]"
      using trajectory_steps [OF ne c1] by simp
    show "length (tm_steps m) = 1" by (simp add: st)
    show "auc_coverage m = sm_coverage (hd (tm_steps m))"
      by (simp add: st auc step_entry_def)
    show "auc_coverage m =
          cum_coverage env gf gs gsp (unwrap_gold_lines gl) [snd (parse_trajectory td)]"
      by (simp add: auc p)
    show cf: "c_file (auc_coverage m) =
          (if gf \<noteq> {} then real (card (set (td_pred_files td) \<inter> gf)) / real (card gf) else 1)"
      by (simp add: auc c_file_cum_coverage cum_files_def)
    {
      assume "finite gf \<and> gf \<subseteq> set (td_pred_files td)"
      then show "c_file (auc_coverage m) = 1"
        unfolding cf using full_cover [of gf "set (td_pred_files td)"] by simp
    }
  }
qed

lemma example_final_symbols:
  "\<exists>r. step_symbols example_env (snd (parse_trajectory example_traj_data)) = Inr r"
  by (simp add: example_traj_data_def parse_trajectory_def Let_def spans_of_dict_def
      step_symbols_def step_to_byte_spans_def example_env_def
      dict_append_def dict_get_def extract_def_set_in_spans_def example_path_exists
      example_extract_defs)

theorem parse_trajectory_fallback_spec_witness:
  "td_pred_steps example_traj_data = [] \<and>
   length (fst (parse_trajectory example_traj_data)) = 1 \<and>
   (\<exists>m. compute_trajectory_metrics example_env (fst (parse_trajectory example_traj_data))
          {''a.py''} {} [] None = Inr m \<and> c_file (auc_coverage m) = 1)"
proof -
  have e: "td_pred_steps example_traj_data = []" by (simp add: example_traj_data_def)
  have fs: "finite {''a.py''} \<and> {''a.py''} \<subseteq> set (td_pred_files example_traj_data)"
    by (simp add: example_traj_data_def)
  have p: "fst (parse_trajectory example_traj_data) = [snd (parse_trajectory example_traj_data)]"
    using e by (simp add: parse_trajectory_def Let_def)
  obtain m where m: "compute_trajectory_metrics example_env (fst (parse_trajectory example_traj_data))
          {''a.py''} {} [] None = Inr m"
    using compute_trajectory_metrics_total [of "fst (parse_trajectory example_traj_data)" example_env
        "{''a.py''}" "{}" "[]" None] example_final_symbols p by auto
  have "c_file (auc_coverage m) = 1"
    using parse_trajectory_fallback_spec [OF e, of example_env "{''a.py''}" "{}" "[]" None m] m fs
    by blast
  then show ?thesis using e p m by auto
qed

end
